theory Spec2Isabelle
  imports Complex_Main "HOL-Library.Word" "HOL-Library.Log_Nat"
begin

unbundle bit_operations_syntax

section \<open>The MMC5603 magnetometer driver (adafruit\_mmc56x3.py)\<close>

text \<open>
  The driver talks to the chip through an I2C bus device and sleeps with \<^verbatim>\<open>time.sleep\<close>.
  Both are collaborators outside the driver, so the model takes the device behind the bus
  as a parameter: a record of three reactions over a device state \<open>'d\<close> that the caller
  chooses. Every bus transaction and every sleep of the driver is appended to a trace, and
  the time slept is added to a clock, so that what the driver does on the bus is part of
  the value a call returns.

  Python integers are \<open>int\<close>, the bytes of a \<^verbatim>\<open>bytearray\<close> are \<open>8 word\<close>. A Python float
  is a double: the model holds its value, a rational, and rounds the exact result of every
  float operation to the nearest double (subsection \<open>Floats\<close>). The durations handed to
  \<^verbatim>\<open>time.sleep\<close> are kept as the decimal fractions written in the source.

  The bus is taken to answer every transaction: the errors the bus library raises on its
  own (a device that does not acknowledge) pass through the driver untouched and are not
  modelled. The errors of the model are the ones the driver's own code raises.
\<close>

subsection \<open>Floats\<close>

text \<open>
  The arithmetic of \<^verbatim>\<open>t *= 0.8\<close>, \<^verbatim>\<open>t -= 75\<close> and \<^verbatim>\<open>x *= 0.00625\<close> is float arithmetic:
  an \<^verbatim>\<open>int\<close> operand is converted to a float, a literal denotes the double nearest to
  it, and the result of an operation is the exact result rounded. The rounding is a
  parameter of the driver's arithmetic, so that it can be run with the rounding of the
  code, \<open>binary64\<close>, and with none, \<open>exact\<close>.

  \<open>binary64\<close> rounds to the nearest value with a 53 bit significand, ties to the even
  significand, with the fixed spacing \<open>2^-1074\<close> below \<open>2^-1022\<close>. \<open>binade q\<close> is the
  exponent \<open>e\<close> with \<open>2^e \<le> q < 2^(e+1)\<close>. Overflow to infinity (from \<open>2^1024\<close> on) is not
  represented: no value of the driver exceeds \<open>2^12\<close> in magnitude.
\<close>

type_synonym rounding = "rat \<Rightarrow> rat"

definition exact :: rounding where
  "exact q = q"

definition round_half_even :: "rat \<Rightarrow> int" where
  "round_half_even q =
     (let f = \<lfloor>q\<rfloor>; r = q - of_int f
      in if r < 1 / 2 then f else if 1 / 2 < r then f + 1 else if even f then f else f + 1)"

definition binade :: "rat \<Rightarrow> int" where
  "binade q =
     (let nd = quotient_of q; k = bitlen (fst nd) - bitlen (snd nd)
      in if 2 powi k \<le> q then k else k - 1)"

definition binary64 :: rounding where
  "binary64 q =
     (if q = 0 then 0
      else (let e = max (binade \<bar>q\<bar>) (- 1022); u = 2 powi (e - 52)
            in of_int (round_half_even (q / u)) * u))"

definition float_of_int :: "rounding \<Rightarrow> int \<Rightarrow> rat" where
  "float_of_int R n = R (of_int n)"

definition float_lit :: "rounding \<Rightarrow> rat \<Rightarrow> rat" where
  "float_lit R q = R q"

definition float_mul :: "rounding \<Rightarrow> rat \<Rightarrow> rat \<Rightarrow> rat" where
  "float_mul R a b = R (a * b)"

definition float_sub :: "rounding \<Rightarrow> rat \<Rightarrow> rat \<Rightarrow> rat" where
  "float_sub R a b = R (a - b)"

subsection \<open>Bus, clock and trace\<close>

type_synonym u8 = "8 word"

datatype event =
    BusWrite "u8 list"
  | BusWriteThenRead "u8 list" "u8 list"
  | Sleep rat

text \<open>
  The device behind the bus. \<open>on_write bs\<close> is its reaction to a write transaction of the
  bytes \<open>bs\<close>; \<open>on_read out n\<close> is its reaction to a combined transaction that writes
  \<open>out\<close> and then clocks \<open>n\<close> bytes in, answering with the byte at each position;
  \<open>on_sleep s\<close> is what \<open>s\<close> seconds of waiting do to it.
\<close>

record 'd device =
  on_write :: "u8 list \<Rightarrow> 'd \<Rightarrow> 'd"
  on_read :: "u8 list \<Rightarrow> nat \<Rightarrow> 'd \<Rightarrow> (nat \<Rightarrow> u8) \<times> 'd"
  on_sleep :: "rat \<Rightarrow> 'd \<Rightarrow> 'd"

text \<open>
  The state a method runs in: the device, the clock, the trace, and the attributes of the
  driver object. \<open>buffer\<close> is \<^verbatim>\<open>self._buffer\<close>, \<open>None\<close> until \<^verbatim>\<open>__init__\<close> assigns it.
\<close>

record 'd state =
  dev :: 'd
  clock :: rat
  trace :: "event list"
  address :: int
  buffer :: "u8 list option"

datatype error =
    RuntimeError string
  | NameError string
  | AttributeError string
  | IndexError

text \<open>\<^verbatim>\<open>i2c.write(buf)\<close>\<close>

definition i2c_write :: "'d device \<Rightarrow> u8 list \<Rightarrow> 'd state \<Rightarrow> 'd state" where
  "i2c_write D bs w =
     w\<lparr>dev := on_write D bs (dev w), trace := trace w @ [BusWrite bs]\<rparr>"

text \<open>
  \<^verbatim>\<open>i2c.write_then_readinto(out, in)\<close>: one transaction that writes \<open>out\<close> and reads
  \<open>n\<close> bytes; the bytes read are returned and logged.
\<close>

definition i2c_write_then_readinto ::
  "'d device \<Rightarrow> u8 list \<Rightarrow> nat \<Rightarrow> 'd state \<Rightarrow> u8 list \<times> 'd state" where
  "i2c_write_then_readinto D out n w =
     (let r = on_read D out n (dev w);
          inb = map (fst r) [0..<n]
      in (inb, w\<lparr>dev := snd r, trace := trace w @ [BusWriteThenRead out inb]\<rparr>))"

text \<open>\<^verbatim>\<open>time.sleep(s)\<close>\<close>

definition sleep :: "'d device \<Rightarrow> rat \<Rightarrow> 'd state \<Rightarrow> 'd state" where
  "sleep D s w =
     w\<lparr>dev := on_sleep D s (dev w), clock := clock w + s, trace := trace w @ [Sleep s]\<rparr>"

subsection \<open>Register descriptors (adafruit\_register)\<close>

text \<open>
  The descriptors the class binds. Reading a \<^verbatim>\<open>UnaryStruct(addr, "<B")\<close> writes the register
  address and reads one byte back in one transaction; assigning to it writes the address
  followed by the byte. Reading an \<^verbatim>\<open>RWBit(addr, bit)\<close> reads the register the same way and
  tests the byte against the mask \<^verbatim>\<open>1 << (bit % 8)\<close>.
\<close>

definition unary_struct_get :: "'d device \<Rightarrow> u8 \<Rightarrow> 'd state \<Rightarrow> int \<times> 'd state" where
  "unary_struct_get D addr w =
     (let r = i2c_write_then_readinto D [addr] 1 w in (uint (fst r ! 0), snd r))"

definition unary_struct_set :: "'d device \<Rightarrow> u8 \<Rightarrow> u8 \<Rightarrow> 'd state \<Rightarrow> 'd state" where
  "unary_struct_set D addr v w = i2c_write D [addr, v] w"

definition rw_bit_get :: "'d device \<Rightarrow> u8 \<Rightarrow> nat \<Rightarrow> 'd state \<Rightarrow> bool \<times> 'd state" where
  "rw_bit_get D addr b w =
     (let r = i2c_write_then_readinto D [addr] 1 w
      in ((fst r ! 0) AND push_bit (b mod 8) 1 \<noteq> 0, snd r))"

subsection \<open>Register map\<close>

definition MMC5603_I2CADDR_DEFAULT :: int where "MMC5603_I2CADDR_DEFAULT = 0x30"
definition MMC5603_CHIP_ID :: int where "MMC5603_CHIP_ID = 0x10"
definition MMC5603_OUT_X_L :: u8 where "MMC5603_OUT_X_L = 0x00"
definition MMC5603_OUT_TEMP :: u8 where "MMC5603_OUT_TEMP = 0x09"
definition MMC5603_PRODUCT_ID :: u8 where "MMC5603_PRODUCT_ID = 0x39"
definition MMC5603_STATUS_REG :: u8 where "MMC5603_STATUS_REG = 0x18"
definition MMC5603_CTRL_REG0 :: u8 where "MMC5603_CTRL_REG0 = 0x1B"
definition MMC5603_CTRL_REG1 :: u8 where "MMC5603_CTRL_REG1 = 0x1C"
definition MMC5603_CTRL_REG2 :: u8 where "MMC5603_CTRL_REG2 = 0x1D"

subsection \<open>The driver\<close>

text \<open>\<^verbatim>\<open>reset\<close>: write 0x80 to control register 1, then sleep 20 ms.\<close>

definition reset :: "'d device \<Rightarrow> 'd state \<Rightarrow> 'd state" where
  "reset D w = sleep D 0.020 (unary_struct_set D MMC5603_CTRL_REG1 0x80 w)"

text \<open>
  \<^verbatim>\<open>i2c_device.I2CDevice(i2c_bus, address)\<close>: the handle keeps the address and probes the
  device with a write of no bytes.
\<close>

definition i2c_device_init :: "'d device \<Rightarrow> int \<Rightarrow> 'd state \<Rightarrow> 'd state" where
  "i2c_device_init D addr w = i2c_write D [] (w\<lparr>address := addr\<rparr>)"

text \<open>
  \<^verbatim>\<open>__init__\<close>: a fresh object has no \<^verbatim>\<open>_buffer\<close>; the bus handle is built, the chip id
  is read and compared, and only then the chip is reset and the buffer allocated. The
  state is returned with the error, since the bus transactions before the \<^verbatim>\<open>raise\<close> have
  happened. The default of the parameter \<^verbatim>\<open>address\<close> is \<open>MMC5603_I2CADDR_DEFAULT\<close>.
\<close>

definition init :: "'d device \<Rightarrow> int \<Rightarrow> 'd state \<Rightarrow> (error + unit) \<times> 'd state" where
  "init D addr w =
     (let w0 = i2c_device_init D addr (w\<lparr>buffer := None\<rparr>);
          r = unary_struct_get D MMC5603_PRODUCT_ID w0
      in if fst r \<noteq> MMC5603_CHIP_ID
         then (Inl (RuntimeError ''Failed to find MMC5603 - check your wiring!''), snd r)
         else (Inr (), (reset D (snd r))\<lparr>buffer := Some (replicate 9 0)\<rparr>))"

text \<open>
  A caller's \<^verbatim>\<open>sensor = MMC5603(i2c)\<close> followed by a use of \<^verbatim>\<open>sensor\<close>, as in
  \<^verbatim>\<open>examples/mmc56x3_simpletest.py\<close>: an exception leaves the constructor, no object is
  bound, and the use does not run.
\<close>

definition construct_then ::
  "'d device \<Rightarrow> int \<Rightarrow> 'd state \<Rightarrow> ('d state \<Rightarrow> 'r) \<Rightarrow> error \<times> 'd state + 'r" where
  "construct_then D addr w use =
     (case init D addr w of (Inl e, w') \<Rightarrow> Inl (e, w') | (Inr u, w') \<Rightarrow> Inr (use w'))"

text \<open>The Python class of an exception.\<close>

fun error_class :: "error \<Rightarrow> string" where
  "error_class (RuntimeError m) = ''RuntimeError''"
| "error_class (NameError m) = ''NameError''"
| "error_class (AttributeError m) = ''AttributeError''"
| "error_class IndexError = ''IndexError''"

text \<open>
  The two polling loops \<^verbatim>\<open>while not self._meas_t_done: time.sleep(0.005)\<close> and
  \<^verbatim>\<open>while not self._meas_m_done: time.sleep(0.005)\<close> differ in the status bit only, which
  is the parameter \<open>b\<close>. The loop has no bound: where it never ends the value is \<open>None\<close>.
\<close>

partial_function (option) wait_done :: "'d device \<Rightarrow> nat \<Rightarrow> 'd state \<Rightarrow> 'd state option" where
  "wait_done D b w =
     (let r = rw_bit_get D MMC5603_STATUS_REG b w
      in if fst r then Some (snd r) else wait_done D b (sleep D 0.005 (snd r)))"

declare wait_done.simps [code]

text \<open>
  The same loop cut off after \<open>n\<close> polls: \<open>Inr\<close> the state when a poll saw the bit set,
  \<open>Inl\<close> the state reached when \<open>n\<close> polls did not. It shows what a call has done by
  then, also a call that never returns.
\<close>

fun wait_done_within :: "nat \<Rightarrow> 'd device \<Rightarrow> nat \<Rightarrow> 'd state \<Rightarrow> 'd state + 'd state" where
  "wait_done_within 0 D b w = Inl w"
| "wait_done_within (Suc n) D b w =
     (let r = rw_bit_get D MMC5603_STATUS_REG b w
      in if fst r then Inr (snd r) else wait_done_within n D b (sleep D 0.005 (snd r)))"

text \<open>\<^verbatim>\<open>temperature\<close>, with the rounding \<open>R\<close> of its float arithmetic.\<close>

definition temperature :: "rounding \<Rightarrow> 'd device \<Rightarrow> 'd state \<Rightarrow> (rat \<times> 'd state) option" where
  "temperature R D w =
     (case wait_done D 7 (unary_struct_set D MMC5603_CTRL_REG0 0x02 w) of
        None \<Rightarrow> None
      | Some w1 \<Rightarrow>
          (let r = unary_struct_get D MMC5603_OUT_TEMP w1;
               t = float_mul R (float_of_int R (fst r)) (float_lit R 0.8);
               t = float_sub R t (float_of_int R 75)
           in Some (t, snd r)))"

text \<open>
  \<^verbatim>\<open>magnetic\<close>, after its polling loop (lines 129 to 144): \<^verbatim>\<open>self._buffer[0] = ...\<close> needs
  the attribute and a first element; the transaction writes \<^verbatim>\<open>self._buffer[0:1]\<close> and
  reads \<^verbatim>\<open>len(self._buffer)\<close> bytes into the buffer from index 0; the indices 0 to 8 are
  then read, and the three values are offset as integers and scaled as floats.
\<close>

definition read_axes ::
  "rounding \<Rightarrow> 'd device \<Rightarrow> 'd state \<Rightarrow> (error + rat \<times> rat \<times> rat) \<times> 'd state" where
  "read_axes R D w1 =
     (case buffer w1 of
        None \<Rightarrow> (Inl (AttributeError ''_buffer''), w1)
      | Some b \<Rightarrow>
          if length b = 0 then (Inl IndexError, w1)
          else
            (let b0 = b[0 := MMC5603_OUT_X_L];
                 r = i2c_write_then_readinto D (take 1 b0) (length b0) w1;
                 b1 = fst r;
                 w2 = (snd r)\<lparr>buffer := Some b1\<rparr>
             in if length b1 < 9 then (Inl IndexError, w2)
                else
                  (let x = push_bit 12 (uint (b1 ! 0)) OR push_bit 4 (uint (b1 ! 1))
                             OR drop_bit 4 (uint (b1 ! 6));
                       y = push_bit 12 (uint (b1 ! 2)) OR push_bit 4 (uint (b1 ! 3))
                             OR drop_bit 4 (uint (b1 ! 7));
                       z = push_bit 12 (uint (b1 ! 4)) OR push_bit 4 (uint (b1 ! 5))
                             OR drop_bit 4 (uint (b1 ! 8));
                       x = x - push_bit 19 1;
                       y = y - push_bit 19 1;
                       z = z - push_bit 19 1;
                       x = float_mul R (float_of_int R x) (float_lit R 0.00625);
                       y = float_mul R (float_of_int R y) (float_lit R 0.00625);
                       z = float_mul R (float_of_int R z) (float_lit R 0.00625)
                   in (Inr (x, y, z), w2))))"

text \<open>\<^verbatim>\<open>magnetic\<close>: the write to control register 0, the polling loop, the read-out.\<close>

definition magnetic ::
  "rounding \<Rightarrow> 'd device \<Rightarrow> 'd state \<Rightarrow> ((error + rat \<times> rat \<times> rat) \<times> 'd state) option" where
  "magnetic R D w =
     (case wait_done D 6 (unary_struct_set D MMC5603_CTRL_REG0 0x21 w) of
        None \<Rightarrow> None
      | Some w1 \<Rightarrow> Some (read_axes R D w1))"

text \<open>
  \<^verbatim>\<open>magnetic\<close> with its loop cut off after \<open>n\<close> polls: \<open>Inl\<close> the state of a call still
  polling, \<open>Inr\<close> the outcome of a call that has returned.
\<close>

definition magnetic_within ::
  "nat \<Rightarrow> rounding \<Rightarrow> 'd device \<Rightarrow> 'd state
     \<Rightarrow> 'd state + (error + rat \<times> rat \<times> rat) \<times> 'd state" where
  "magnetic_within n R D w =
     (case wait_done_within n D 6 (unary_struct_set D MMC5603_CTRL_REG0 0x21 w) of
        Inl s \<Rightarrow> Inl s
      | Inr w1 \<Rightarrow> Inr (read_axes R D w1))"

text \<open>The state a call has reached, returned or not.\<close>

definition state_reached :: "'d state + 'a \<times> 'd state \<Rightarrow> 'd state" where
  "state_reached oc = (case oc of Inl s \<Rightarrow> s | Inr (r, w') \<Rightarrow> w')"

text \<open>
  The setters of \<^verbatim>\<open>data_rate\<close>, \<^verbatim>\<open>performance_mode\<close> and \<^verbatim>\<open>operation_mode\<close>. The first
  expression each of them evaluates loads a global name: \<^verbatim>\<open>Rate\<close> in
  \<^verbatim>\<open>value is Rate.RATE_155_HZ\<close>, \<^verbatim>\<open>PerformanceMode\<close> and \<^verbatim>\<open>OperationMode\<close> in
  \<^verbatim>\<open>X.is_valid(value)\<close>. \<open>module_globals\<close> lists the names the module binds (its imports,
  its assignments and its class), in source order; none of the three names is a Python
  builtin. What the rest of a setter does depends on the object bound to the name, so the
  rest is the parameter \<open>body\<close>.
\<close>

definition module_globals :: "string list" where
  "module_globals =
     [''time'', ''const'', ''i2c_device'', ''ROUnaryStruct'', ''UnaryStruct'', ''Struct'',
      ''RWBits'', ''RWBit'', ''__version__'', ''__repo__'',
      ''_MMC5603_I2CADDR_DEFAULT'', ''_MMC5603_CHIP_ID'', ''_MMC5603_OUT_X_L'',
      ''_MMC5603_OUT_TEMP'', ''_MMC5603_PRODUCT_ID'', ''_MMC5603_STATUS_REG'',
      ''_MMC5603_CTRL_REG0'', ''_MMC5603_CTRL_REG1'', ''_MMC5603_CTRL_REG2'', ''MMC5603'']"

definition load_global :: "string \<Rightarrow> error + string" where
  "load_global n = (if n \<in> set module_globals then Inr n else Inl (NameError n))"

definition data_rate_setter ::
  "('v \<Rightarrow> 'd state \<Rightarrow> (error + unit) \<times> 'd state) \<Rightarrow> 'v \<Rightarrow> 'd state
     \<Rightarrow> (error + unit) \<times> 'd state" where
  "data_rate_setter body val w =
     (case load_global ''Rate'' of Inl e \<Rightarrow> (Inl e, w) | Inr _ \<Rightarrow> body val w)"

definition performance_mode_setter ::
  "('v \<Rightarrow> 'd state \<Rightarrow> (error + unit) \<times> 'd state) \<Rightarrow> 'v \<Rightarrow> 'd state
     \<Rightarrow> (error + unit) \<times> 'd state" where
  "performance_mode_setter body val w =
     (case load_global ''PerformanceMode'' of Inl e \<Rightarrow> (Inl e, w) | Inr _ \<Rightarrow> body val w)"

definition operation_mode_setter ::
  "('v \<Rightarrow> 'd state \<Rightarrow> (error + unit) \<times> 'd state) \<Rightarrow> 'v \<Rightarrow> 'd state
     \<Rightarrow> (error + unit) \<times> 'd state" where
  "operation_mode_setter body val w =
     (case load_global ''OperationMode'' of Inl e \<Rightarrow> (Inl e, w) | Inr _ \<Rightarrow> body val w)"

subsection \<open>The polling loop, poll by poll\<close>

text \<open>
  \<open>first_done_at D b K d\<close>: started in device state \<open>d\<close>, the loop's status reads see
  bit \<open>b\<close> clear \<open>K - 1\<close> times, each followed by a 5 ms sleep, and set at read \<open>K\<close>.
  \<open>polled D b K w\<close> is the state after those \<open>K\<close> reads.
\<close>

fun first_done_at :: "'d device \<Rightarrow> nat \<Rightarrow> nat \<Rightarrow> 'd \<Rightarrow> bool" where
  "first_done_at D b 0 d = False"
| "first_done_at D b (Suc 0) d =
     (fst (on_read D [MMC5603_STATUS_REG] 1 d) 0 AND push_bit (b mod 8) 1 \<noteq> 0)"
| "first_done_at D b (Suc (Suc k)) d =
     (fst (on_read D [MMC5603_STATUS_REG] 1 d) 0 AND push_bit (b mod 8) 1 = 0 \<and>
      first_done_at D b (Suc k)
        (on_sleep D 0.005 (snd (on_read D [MMC5603_STATUS_REG] 1 d))))"

fun polled :: "'d device \<Rightarrow> nat \<Rightarrow> nat \<Rightarrow> 'd state \<Rightarrow> 'd state" where
  "polled D b 0 w = w"
| "polled D b (Suc 0) w = snd (rw_bit_get D MMC5603_STATUS_REG b w)"
| "polled D b (Suc (Suc k)) w =
     polled D b (Suc k) (sleep D 0.005 (snd (rw_bit_get D MMC5603_STATUS_REG b w)))"

text \<open>
  \<open>poll_phase b K es\<close>: the events \<open>es\<close> are exactly \<open>K\<close> reads of the status register,
  the first \<open>K - 1\<close> with bit \<open>b\<close> clear and each followed by a sleep of 5 ms, the last
  with bit \<open>b\<close> set; nothing else, so no write.
\<close>

fun poll_phase :: "nat \<Rightarrow> nat \<Rightarrow> event list \<Rightarrow> bool" where
  "poll_phase b (Suc 0) [BusWriteThenRead out [v]] =
     (out = [MMC5603_STATUS_REG] \<and> v AND push_bit (b mod 8) 1 \<noteq> 0)"
| "poll_phase b (Suc (Suc k)) (BusWriteThenRead out [v] # Sleep s # es) =
     (out = [MMC5603_STATUS_REG] \<and> v AND push_bit (b mod 8) 1 = 0 \<and> s = 0.005 \<and>
      poll_phase b (Suc k) es)"
| "poll_phase b K es = False"

text \<open>
  The device by itself: \<open>settled D K d\<close> is its state after \<open>K\<close> reads of the status
  register with a 5 ms sleep between consecutive ones, \<open>poll_events D K d\<close> the events
  these are on the bus, \<open>readback D d\<close> the nine bytes it delivers when the block at
  0x00 is read in state \<open>d\<close>, \<open>raw_temp D d\<close> the byte it delivers for register 0x09.
\<close>

fun settled :: "'d device \<Rightarrow> nat \<Rightarrow> 'd \<Rightarrow> 'd" where
  "settled D 0 d = d"
| "settled D (Suc 0) d = snd (on_read D [MMC5603_STATUS_REG] 1 d)"
| "settled D (Suc (Suc k)) d =
     settled D (Suc k) (on_sleep D 0.005 (snd (on_read D [MMC5603_STATUS_REG] 1 d)))"

fun poll_events :: "'d device \<Rightarrow> nat \<Rightarrow> 'd \<Rightarrow> event list" where
  "poll_events D 0 d = []"
| "poll_events D (Suc 0) d =
     [BusWriteThenRead [MMC5603_STATUS_REG] [fst (on_read D [MMC5603_STATUS_REG] 1 d) 0]]"
| "poll_events D (Suc (Suc k)) d =
     BusWriteThenRead [MMC5603_STATUS_REG] [fst (on_read D [MMC5603_STATUS_REG] 1 d) 0] #
     Sleep 0.005 #
     poll_events D (Suc k) (on_sleep D 0.005 (snd (on_read D [MMC5603_STATUS_REG] 1 d)))"

definition readback :: "'d device \<Rightarrow> 'd \<Rightarrow> u8 list" where
  "readback D d = map (fst (on_read D [0x00] 9 d)) [0..<9]"

definition raw_temp :: "'d device \<Rightarrow> 'd \<Rightarrow> u8" where
  "raw_temp D d = fst (on_read D [0x09] 1 d) 0"

text \<open>
  The formulas as the specification words them. \<open>packed b i\<close> is the 20 bit value of axis
  \<open>i\<close> from the 9 bytes \<open>b\<close>: high byte \<open>b[2i]\<close>, mid byte \<open>b[2i+1]\<close>, low nibble byte
  \<open>b[6+i]\<close>. \<open>axis R b i\<close> is \<open>(packed - 2^19) * 0.00625\<close> and \<open>celsius R raw\<close> is
  \<open>raw * 0.8 - 75\<close>, computed in floats with rounding \<open>R\<close>.
\<close>

definition packed :: "u8 list \<Rightarrow> nat \<Rightarrow> int" where
  "packed b i =
     push_bit 12 (uint (b ! (2 * i))) OR push_bit 4 (uint (b ! (2 * i + 1)))
       OR drop_bit 4 (uint (b ! (6 + i)))"

definition axis :: "rounding \<Rightarrow> u8 list \<Rightarrow> nat \<Rightarrow> rat" where
  "axis R b i = float_mul R (float_of_int R (packed b i - 2 ^ 19)) (float_lit R 0.00625)"

definition celsius :: "rounding \<Rightarrow> u8 \<Rightarrow> rat" where
  "celsius R raw =
     float_sub R (float_mul R (float_of_int R (uint raw)) (float_lit R 0.8)) (float_of_int R 75)"

text \<open>The driver object as \<^verbatim>\<open>__init__\<close> leaves it: a buffer of 9 bytes.\<close>

definition constructed :: "'d state \<Rightarrow> bool" where
  "constructed w = (case buffer w of None \<Rightarrow> False | Some b \<Rightarrow> length b = 9)"

subsection \<open>A simulated chip\<close>

text \<open>
  A chip to run the driver against. It holds the output registers from address 0x00
  upward and the product id; a write to control register 0 starts a conversion, after
  which \<open>conversion_polls\<close> reads of the status register answer 0x00 before the
  register answers 0xC0 (both done bits set). Sleeping does not change it.
\<close>

record sim =
  out_block :: "u8 list"
  product_id :: u8
  conversion_polls :: nat
  pending :: nat

definition sim_read :: "u8 list \<Rightarrow> nat \<Rightarrow> sim \<Rightarrow> (nat \<Rightarrow> u8) \<times> sim" where
  "sim_read out n s =
     (case out of
        [a] \<Rightarrow>
          if a = MMC5603_STATUS_REG then
            (if pending s = 0 then (\<lambda>i. 0xC0, s) else (\<lambda>i. 0, s\<lparr>pending := pending s - 1\<rparr>))
          else if a = MMC5603_PRODUCT_ID then (\<lambda>i. product_id s, s)
          else (\<lambda>i. if unat a + i < length (out_block s) then out_block s ! (unat a + i) else 0, s)
      | _ \<Rightarrow> (\<lambda>i. 0, s))"

definition sim_write :: "u8 list \<Rightarrow> sim \<Rightarrow> sim" where
  "sim_write bs s =
     (case bs of
        [a, v] \<Rightarrow> if a = MMC5603_CTRL_REG0 then s\<lparr>pending := conversion_polls s\<rparr> else s
      | _ \<Rightarrow> s)"

definition SIM :: "sim device" where
  "SIM = \<lparr>on_write = sim_write, on_read = sim_read, on_sleep = (\<lambda>t s. s)\<rparr>"

definition sim_start :: "u8 list \<Rightarrow> u8 \<Rightarrow> nat \<Rightarrow> sim state" where
  "sim_start regs pid k =
     \<lparr>dev = \<lparr>out_block = regs, product_id = pid, conversion_polls = k, pending = 0\<rparr>,
      clock = 0, trace = [], address = 0, buffer = None\<rparr>"

text \<open>A driver constructed on a simulated chip with the right product id.\<close>

definition sim_driver :: "u8 list \<Rightarrow> nat \<Rightarrow> sim state" where
  "sim_driver regs k = snd (init SIM MMC5603_I2CADDR_DEFAULT (sim_start regs 0x10 k))"

text \<open>
  A sample chip: X reads \<open>(1 << 19) + 160\<close>, Y and Z read mid-scale, the raw temperature is
  255, and a conversion takes two polls before the third sees it done.
\<close>

definition sample_regs :: "u8 list" where
  "sample_regs = [0x80, 0x0A, 0x80, 0x00, 0x80, 0x00, 0x00, 0x00, 0x00, 0xFF]"

definition sample_driver :: "sim state" where
  "sample_driver = sim_driver sample_regs 2"

text \<open>
  A second chip: X reads the packed value 514007 and the raw temperature is 23; its
  conversions are done at the first poll.
\<close>

definition other_regs :: "u8 list" where
  "other_regs = [0x7D, 0x7D, 0x80, 0x00, 0x80, 0x00, 0x70, 0x00, 0x00, 0x17]"

definition other_driver :: "sim state" where
  "other_driver = sim_driver other_regs 0"

text \<open>A chip that never finishes a conversion: its status register always reads 0.\<close>

definition STUCK :: "unit device" where
  "STUCK = \<lparr>on_write = (\<lambda>bs d. d), on_read = (\<lambda>out n d. (\<lambda>i. 0, d)), on_sleep = (\<lambda>t d. d)\<rparr>"

definition stuck_driver :: "unit state" where
  "stuck_driver =
     \<lparr>dev = (), clock = 0, trace = [], address = 0x30, buffer = Some (replicate 9 0)\<rparr>"

section \<open>Properties\<close>

subsection \<open>Float arithmetic\<close>

lemma round_half_even_error: "\<bar>of_int (round_half_even z) - z\<bar> \<le> 1 / 2"
proof -
  have "of_int \<lfloor>z\<rfloor> \<le> z" "z < of_int \<lfloor>z\<rfloor> + 1" by linarith+
  then show ?thesis
    by (auto simp: round_half_even_def Let_def abs_le_iff)
qed

lemma round_half_even_of_int: "round_half_even (of_int n) = n"
  by (simp add: round_half_even_def Let_def)

lemma binade_le:
  assumes "0 < q"
  shows "2 powi (binade q) \<le> q"
proof -
  obtain n d where nd: "quotient_of q = (n, d)" by (cases "quotient_of q")
  then have d: "0 < d" and q: "q = of_int n / of_int d"
    by (rule quotient_of_denom_pos, rule quotient_of_div)
  from assms d q have n: "0 < n"
    by (simp add: zero_less_divide_iff)
  let ?k = "bitlen n - bitlen d"
  show ?thesis
  proof (cases "2 powi ?k \<le> q")
    case True
    then show ?thesis by (simp add: binade_def nd Let_def)
  next
    case False
    from bitlen_bounds [OF n] have "2 ^ nat (bitlen n - 1) \<le> n" by simp
    then have "(of_int (2 ^ nat (bitlen n - 1)) :: rat) \<le> of_int n"
      by (simp only: of_int_le_iff)
    then have nb: "(2 :: rat) ^ nat (bitlen n - 1) \<le> of_int n" by simp
    from bitlen_bounds [OF d] have "d < 2 ^ nat (bitlen d)" by simp
    then have "(of_int d :: rat) < of_int (2 ^ nat (bitlen d))"
      by (simp only: of_int_less_iff)
    then have db: "(of_int d :: rat) < 2 ^ nat (bitlen d)" by simp
    have bn: "1 \<le> bitlen n" using n by (simp add: bitlen_alt_def)
    have bd: "0 \<le> bitlen d" by (rule bitlen_nonneg)
    have "(2 :: rat) powi (?k - 1) = 2 powi (bitlen n - 1) / 2 powi (bitlen d)"
      using power_int_diff [of "2 :: rat" "bitlen n - 1" "bitlen d"] by (simp add: algebra_simps)
    also have "\<dots> = 2 ^ nat (bitlen n - 1) / 2 ^ nat (bitlen d)"
      using bn bd by (simp add: power_int_nonneg_exp)
    also have "\<dots> \<le> of_int n / 2 ^ nat (bitlen d)"
      using nb by (simp add: divide_right_mono)
    also have "\<dots> \<le> of_int n / of_int d"
      using db d n by (intro divide_left_mono) (simp_all add: less_imp_le)
    finally have "(2 :: rat) powi (?k - 1) \<le> q" using q by simp
    with False show ?thesis by (simp add: binade_def nd Let_def)
  qed
qed

lemma binade_less:
  assumes "0 < q" and "q < 2 powi m"
  shows "binade q < m"
proof (rule ccontr)
  assume "\<not> binade q < m"
  then have "(2 :: rat) powi m \<le> 2 powi (binade q)"
    by (intro power_int_increasing) simp_all
  with binade_le [OF assms(1)] assms(2) show False by simp
qed

lemma binary64_error:
  assumes "\<bar>q\<bar> < 2 powi m" and "- 1021 \<le> m"
  shows "\<bar>binary64 q - q\<bar> \<le> 2 powi (m - 54)"
proof (cases "q = 0")
  case True
  then show ?thesis by (simp add: binary64_def)
next
  case False
  define e where "e = max (binade \<bar>q\<bar>) (- 1022)"
  define u :: rat where "u = 2 powi (e - 52)"
  have "binade \<bar>q\<bar> < m" using False assms(1) by (intro binade_less) simp_all
  with assms(2) have e: "e \<le> m - 1" by (simp add: e_def)
  have u: "0 < u" by (simp add: u_def)
  have b: "binary64 q = of_int (round_half_even (q / u)) * u"
    using False by (simp add: binary64_def Let_def e_def u_def)
  have "binary64 q - q = (of_int (round_half_even (q / u)) - q / u) * u"
    using u by (simp add: b algebra_simps)
  then have "\<bar>binary64 q - q\<bar> = \<bar>of_int (round_half_even (q / u)) - q / u\<bar> * u"
    using u by (simp add: abs_mult)
  also have "\<dots> \<le> 1 / 2 * u"
    using u round_half_even_error [of "q / u"] by (intro mult_right_mono) simp_all
  also have "\<dots> = 2 powi (e - 53)"
    using power_int_diff [of "2 :: rat" "e - 52" 1] by (simp add: u_def)
  also have "\<dots> \<le> 2 powi (m - 54)"
    using e by (intro power_int_increasing) simp_all
  finally show ?thesis .
qed

lemma binary64_of_int:
  assumes "\<bar>n\<bar> < 2 ^ 53"
  shows "binary64 (of_int n) = of_int n"
proof (cases "n = 0")
  case True
  then show ?thesis by (simp add: binary64_def)
next
  case False
  define e where "e = max (binade \<bar>of_int n\<bar>) (- 1022)"
  have "(of_int \<bar>n\<bar> :: rat) < of_int (2 ^ 53)"
    using assms by (simp only: of_int_less_iff)
  then have "\<bar>of_int n :: rat\<bar> < 2 powi 53" by simp
  then have "binade \<bar>of_int n\<bar> < 53" using False by (intro binade_less) simp_all
  then have e: "e \<le> 52" by (simp add: e_def)
  define j where "j = nat (52 - e)"
  have u: "(2 :: rat) powi (e - 52) = 1 / 2 ^ j"
    using e power_int_minus [of "2 :: rat" "52 - e"]
    by (simp add: j_def power_int_nonneg_exp field_simps)
  have "(of_int n :: rat) / (1 / 2 ^ j) = of_int (n * 2 ^ j)" by simp
  then have "round_half_even (of_int n / (1 / 2 ^ j)) = n * 2 ^ j"
    by (simp only: round_half_even_of_int)
  then show ?thesis
    using False by (simp add: binary64_def Let_def e_def [symmetric] u)
qed

lemma exact_float_ops:
  "float_of_int exact n = of_int n" "float_lit exact q = q"
  "float_mul exact a b = a * b" "float_sub exact a b = a - b"
  by (simp_all add: float_of_int_def float_lit_def float_mul_def float_sub_def exact_def)

lemma binary64_literals:
  "binary64 0.8 = 3602879701896397 / 4503599627370496"
  "binary64 0.00625 = 3602879701896397 / 576460752303423488"
  "binary64 (4 / 5) = 3602879701896397 / 4503599627370496"
  "binary64 (1 / 160) = 3602879701896397 / 576460752303423488"
  by code_simp+

lemma uint_byte_bounds:
  fixes v :: u8
  shows "0 \<le> uint v" "uint v \<le> 255"
  using uint_lt2p [of v] by simp_all

lemma celsius_binary64:
  "celsius binary64 raw = binary64 (binary64 (of_int (uint raw) * binary64 0.8) - 75)"
proof -
  have "\<bar>uint raw\<bar> < 2 ^ 53" using uint_byte_bounds [of raw] by simp
  then have "binary64 (of_int (uint raw)) = of_int (uint raw)" by (rule binary64_of_int)
  moreover have "binary64 (of_int 75) = of_int 75" by (rule binary64_of_int) simp
  ultimately show ?thesis
    by (simp add: celsius_def float_of_int_def float_lit_def float_mul_def float_sub_def)
qed

lemma celsius_exact: "celsius exact raw = 0.8 * of_int (uint raw) - 75"
  by (simp add: celsius_def exact_float_ops)

lemma celsius_error:
  "\<bar>celsius binary64 raw - (0.8 * of_int (uint raw) - 75)\<bar> \<le> 1 / 10 ^ 13"
proof -
  define r :: rat where "r = of_int (uint raw)"
  define c :: rat where "c = 3602879701896397 / 4503599627370496"
  define A where "A = r * c"
  define B where "B = binary64 A - 75"
  have "(of_int 0 :: rat) \<le> of_int (uint raw)" "(of_int (uint raw) :: rat) \<le> of_int 255"
    using uint_byte_bounds [of raw] by (simp_all only: of_int_le_iff)
  then have r: "0 \<le> r" "r \<le> 255"
    by (simp_all add: r_def)
  have cel: "celsius binary64 raw = binary64 B"
    by (simp add: celsius_binary64 binary64_literals r_def c_def A_def B_def)
  have c: "0 \<le> c - 0.8" "c - 0.8 \<le> 1 / 10 ^ 16" "c \<le> 1"
    by (simp_all add: c_def)
  have A: "0 \<le> A" "A \<le> 255 * c"
    using r c by (simp_all add: A_def mult_right_mono)
  then have A255: "A \<le> 255" using c(3) by linarith
  with A(1) have "\<bar>A\<bar> < 2 powi 8" by simp
  from binary64_error [OF this] have eA: "\<bar>binary64 A - A\<bar> \<le> 1 / 2 ^ 46"
    by simp
  have "(1 / 2 ^ 46 :: rat) \<le> 1" by simp
  with eA have "\<bar>binary64 A - A\<bar> \<le> 1" by linarith
  then have "binary64 A - A \<le> 1" "A - binary64 A \<le> 1"
    by (simp_all add: abs_le_iff)
  with A(1) A255 have "B < 512" "- B < 512"
    by (simp_all add: B_def)
  then have "\<bar>B\<bar> < 2 powi 9" by (simp add: abs_less_iff)
  from binary64_error [OF this] have eB: "\<bar>binary64 B - B\<bar> \<le> 1 / 2 ^ 45"
    by simp
  have "A - 0.8 * r = r * (c - 0.8)" by (simp add: A_def algebra_simps)
  moreover have "0 \<le> r * (c - 0.8)" using r(1) c(1) by (rule mult_nonneg_nonneg)
  moreover have "r * (c - 0.8) \<le> 255 * (1 / 10 ^ 16)"
    using r c(1,2) by (intro mult_mono) simp_all
  ultimately have d: "\<bar>A - 0.8 * r\<bar> \<le> 255 / 10 ^ 16" by simp
  have "celsius binary64 raw - (0.8 * r - 75) = (binary64 B - B) + (binary64 A - A) + (A - 0.8 * r)"
    by (simp add: cel B_def)
  then have "\<bar>celsius binary64 raw - (0.8 * r - 75)\<bar> \<le> 1 / 2 ^ 45 + 1 / 2 ^ 46 + 255 / 10 ^ 16"
    using eA eB d by linarith
  also have "\<dots> \<le> 1 / 10 ^ 13" by simp
  finally show ?thesis by (simp add: r_def)
qed

lemma celsius_instances: "celsius binary64 0 = - 75" "celsius binary64 255 = 129"
  by code_simp+

lemma packed_bounds:
  fixes h m l :: u8
  shows "0 \<le> push_bit 12 (uint h) OR push_bit 4 (uint m) OR drop_bit 4 (uint l)"
    and "push_bit 12 (uint h) OR push_bit 4 (uint m) OR drop_bit 4 (uint l) < 2 ^ 20"
proof -
  have h: "0 \<le> uint h" "uint h < 256" and m: "0 \<le> uint m" "uint m < 256"
    and l: "0 \<le> uint l" "uint l < 256"
    using uint_lt2p [of h] uint_lt2p [of m] uint_lt2p [of l] by simp_all
  have H: "0 \<le> push_bit 12 (uint h)" "push_bit 12 (uint h) < 2 ^ 20"
    using h by (simp_all add: push_bit_eq_mult)
  have M: "0 \<le> push_bit 4 (uint m)" "push_bit 4 (uint m) < 2 ^ 20"
    using m by (simp_all add: push_bit_eq_mult)
  have "uint l div 16 < 1048576"
    using l by linarith
  then have L2: "drop_bit 4 (uint l) < 2 ^ 20"
    by (simp add: drop_bit_eq_div)
  have L1: "0 \<le> drop_bit 4 (uint l)"
    by simp
  note L = L1 L2
  show "0 \<le> push_bit 12 (uint h) OR push_bit 4 (uint m) OR drop_bit 4 (uint l)"
    using H(1) M(1) L(1) by simp
  have "push_bit 4 (uint m) OR drop_bit 4 (uint l) < 2 ^ 20"
    by (rule OR_upper [OF M(1) M(2) L(2)])
  then show "push_bit 12 (uint h) OR push_bit 4 (uint m) OR drop_bit 4 (uint l) < 2 ^ 20"
    by (rule OR_upper [OF H(1) H(2)])
qed

lemma packed_range: "0 \<le> packed b i" "packed b i < 2 ^ 20"
  unfolding packed_def by (rule packed_bounds)+

lemma axis_exact: "axis exact b i = of_int (packed b i - 2 ^ 19) * 0.00625"
  by (simp add: axis_def exact_float_ops)

lemma axis_binary64:
  "axis binary64 b i = binary64 (of_int (packed b i - 2 ^ 19) * binary64 0.00625)"
proof -
  have "\<bar>packed b i - 2 ^ 19\<bar> < 2 ^ 53"
    using packed_range [of b i] by simp
  then have "binary64 (of_int (packed b i - 2 ^ 19)) = of_int (packed b i - 2 ^ 19)"
    by (rule binary64_of_int)
  then show ?thesis
    by (simp add: axis_def float_of_int_def float_lit_def float_mul_def)
qed

lemma axis_error:
  "\<bar>axis binary64 b i - of_int (packed b i - 2 ^ 19) * 0.00625\<bar> \<le> 1 / 10 ^ 12"
proof -
  define n :: rat where "n = of_int (packed b i - 2 ^ 19)"
  define c :: rat where "c = 3602879701896397 / 576460752303423488"
  define P where "P = n * c"
  have "(of_int (- 524288) :: rat) \<le> of_int (packed b i - 2 ^ 19)"
    "(of_int (packed b i - 2 ^ 19) :: rat) \<le> of_int 524288"
    using packed_range [of b i] by (simp_all only: of_int_le_iff) simp_all
  then have n: "\<bar>n\<bar> \<le> 524288" by (simp add: n_def abs_le_iff)
  have ax: "axis binary64 b i = binary64 P"
    by (simp add: axis_binary64 binary64_literals n_def c_def P_def)
  have c: "0 \<le> c - 1 / 160" "c - 1 / 160 \<le> 4 / 10 ^ 19" "0 \<le> c" "c \<le> 7 / 1000"
    by (simp_all add: c_def)
  have "\<bar>P\<bar> = \<bar>n\<bar> * c" using c(3) by (simp add: P_def abs_mult)
  also have "\<dots> \<le> 524288 * (7 / 1000)"
    using n c(3,4) by (intro mult_mono) simp_all
  finally have "\<bar>P\<bar> < 2 powi 12" by simp
  from binary64_error [OF this] have eP: "\<bar>binary64 P - P\<bar> \<le> 1 / 2 ^ 42"
    by simp
  have "P - n * (1 / 160) = n * (c - 1 / 160)"
    by (simp add: P_def algebra_simps)
  then have "\<bar>P - n * (1 / 160)\<bar> = \<bar>n\<bar> * \<bar>c - 1 / 160\<bar>"
    by (simp only: abs_mult)
  also have "\<dots> = \<bar>n\<bar> * (c - 1 / 160)"
    using c(1) by (simp only: abs_of_nonneg)
  also have "\<dots> \<le> 524288 * (4 / 10 ^ 19)"
    using n c(1,2) by (intro mult_mono) simp_all
  finally have d: "\<bar>P - n * (1 / 160)\<bar> \<le> 524288 * (4 / 10 ^ 19)" .
  have "axis binary64 b i - n * (1 / 160) = (binary64 P - P) + (P - n * (1 / 160))"
    by (simp add: ax)
  then have "\<bar>axis binary64 b i - n * (1 / 160)\<bar> \<le> 1 / 2 ^ 42 + 524288 * (4 / 10 ^ 19)"
    using eP d by linarith
  also have "\<dots> \<le> 1 / 10 ^ 12" by simp
  finally show ?thesis by (simp add: n_def)
qed

lemma axis_instances:
  "axis binary64 [0x80, 0x00, 0x80, 0x00, 0x80, 0x00, 0x00, 0x00, 0x00] 0 = 0"
  "axis binary64 [0x80, 0x00, 0x80, 0x00, 0x80, 0x00, 0x00, 0x00, 0x00] 1 = 0"
  "axis binary64 [0x80, 0x00, 0x80, 0x00, 0x80, 0x00, 0x00, 0x00, 0x00] 2 = 0"
  by code_simp+

lemma axis_one:
  assumes "packed b i = 2 ^ 19 + 160"
  shows "axis binary64 b i = 1"
proof -
  have "binary64 (160 * binary64 0.00625) = 1" by code_simp
  then show ?thesis by (simp add: axis_binary64 assms)
qed

subsection \<open>Bus primitives and the polling loop\<close>

lemmas prim_defs = i2c_write_def i2c_write_then_readinto_def sleep_def unary_struct_get_def
  unary_struct_set_def rw_bit_get_def
lemmas reg_defs = MMC5603_CHIP_ID_def MMC5603_OUT_X_L_def MMC5603_OUT_TEMP_def MMC5603_PRODUCT_ID_def
  MMC5603_STATUS_REG_def MMC5603_CTRL_REG0_def MMC5603_CTRL_REG1_def
lemmas sim_defs = SIM_def sim_read_def sim_write_def sim_start_def

lemma rw_bit_get_dev: "dev (snd (rw_bit_get D a b w)) = snd (on_read D [a] 1 (dev w))"
  by (simp add: rw_bit_get_def i2c_write_then_readinto_def Let_def)

lemma rw_bit_get_fst:
  "fst (rw_bit_get D a b w) = (fst (on_read D [a] 1 (dev w)) 0 AND push_bit (b mod 8) 1 \<noteq> 0)"
  by (simp add: rw_bit_get_def i2c_write_then_readinto_def Let_def)

lemma sleep_dev: "dev (sleep D s w) = on_sleep D s (dev w)"
  by (simp add: sleep_def)

lemma wait_done_first:
  "first_done_at D b K (dev w) \<Longrightarrow> wait_done D b w = Some (polled D b K w)"
proof (induction D b K w rule: polled.induct)
  case (1 D b w)
  then show ?case by simp
next
  case (2 D b w)
  then show ?case by (subst wait_done.simps) (simp add: rw_bit_get_fst Let_def)
next
  case (3 D b k w)
  then show ?case
    by (subst wait_done.simps) (simp add: rw_bit_get_fst rw_bit_get_dev sleep_dev Let_def)
qed

lemma wait_done_terminated:
  assumes "wait_done D b w = Some w'"
  shows "\<exists>K. first_done_at D b K (dev w)"
proof (rule wait_done.raw_induct
    [where P = "\<lambda>D b w w'. \<exists>K. first_done_at D b K (dev w)", OF _ assms])
  fix wd :: "'a device \<Rightarrow> nat \<Rightarrow> 'a state \<Rightarrow> 'a state option" and D b w w'
  assume IH: "\<And>D b w w'. wd D b w = Some w' \<Longrightarrow> \<exists>K. first_done_at D b K (dev w)"
    and body: "(let r = rw_bit_get D MMC5603_STATUS_REG b w
                in if fst r then Some (snd r) else wd D b (sleep D 0.005 (snd r))) = Some w'"
  show "\<exists>K. first_done_at D b K (dev w)"
  proof (cases "fst (rw_bit_get D MMC5603_STATUS_REG b w)")
    case True
    then have "first_done_at D b (Suc 0) (dev w)" by (simp add: rw_bit_get_fst)
    then show ?thesis ..
  next
    case False
    with body have "wd D b (sleep D 0.005 (snd (rw_bit_get D MMC5603_STATUS_REG b w))) = Some w'"
      by (simp add: Let_def)
    from IH [OF this] obtain K where
      K: "first_done_at D b K (on_sleep D 0.005 (snd (on_read D [MMC5603_STATUS_REG] 1 (dev w))))"
      by (auto simp: sleep_dev rw_bit_get_dev)
    then obtain k where "K = Suc k" by (cases K) auto
    with K False have "first_done_at D b (Suc (Suc k)) (dev w)" by (simp add: rw_bit_get_fst)
    then show ?thesis ..
  qed
qed

lemma wait_done_SomeD:
  "wait_done D b w = Some w' \<Longrightarrow> \<exists>K. first_done_at D b K (dev w) \<and> w' = polled D b K w"
  using wait_done_terminated [of D b w w'] wait_done_first [of D b _ w] by auto

lemma polled_buffer: "buffer (polled D b K w) = buffer w"
  by (induction D b K w rule: polled.induct) (simp_all add: prim_defs Let_def)

lemma polled_address: "address (polled D b K w) = address w"
  by (induction D b K w rule: polled.induct) (simp_all add: prim_defs Let_def)

lemma polled_clock: "clock (polled D b K w) = clock w + of_nat (K - 1) * 0.005"
  by (induction D b K w rule: polled.induct) (simp_all add: prim_defs Let_def algebra_simps)

lemma sleep_buffer_update: "sleep D s (w\<lparr>buffer := x\<rparr>) = (sleep D s w)\<lparr>buffer := x\<rparr>"
  by (simp add: sleep_def)

lemma rw_bit_get_buffer_update:
  "rw_bit_get D a b (w\<lparr>buffer := x\<rparr>) =
     (fst (rw_bit_get D a b w), (snd (rw_bit_get D a b w))\<lparr>buffer := x\<rparr>)"
  by (simp add: rw_bit_get_def i2c_write_then_readinto_def Let_def)

lemma polled_buffer_update: "polled D b K (w\<lparr>buffer := x\<rparr>) = (polled D b K w)\<lparr>buffer := x\<rparr>"
  by (induction D b K w rule: polled.induct)
    (simp_all add: sleep_buffer_update rw_bit_get_buffer_update)

lemma polled_trace:
  "first_done_at D b K (dev w) \<Longrightarrow>
     \<exists>polls. trace (polled D b K w) = trace w @ polls \<and> poll_phase b K polls"
proof (induction D b K w rule: polled.induct)
  case (1 D b w)
  then show ?case by simp
next
  case (2 D b w)
  then show ?case by (simp add: prim_defs Let_def)
next
  case (3 D b k w)
  let ?w1 = "sleep D 0.005 (snd (rw_bit_get D MMC5603_STATUS_REG b w))"
  from 3(2) have nd: "fst (on_read D [MMC5603_STATUS_REG] 1 (dev w)) 0 AND push_bit (b mod 8) 1 = 0"
    and "first_done_at D b (Suc k) (dev ?w1)"
    by (simp_all add: sleep_dev rw_bit_get_dev)
  from 3(1) [OF this(2)] obtain polls where
    p: "trace (polled D b (Suc k) ?w1) = trace ?w1 @ polls" "poll_phase b (Suc k) polls"
    by blast
  let ?es = "BusWriteThenRead [MMC5603_STATUS_REG] [fst (on_read D [MMC5603_STATUS_REG] 1 (dev w)) 0]
     # Sleep 0.005 # polls"
  have "trace (polled D b (Suc (Suc k)) w) = trace w @ ?es"
    using p(1) by (simp add: prim_defs Let_def)
  moreover have "poll_phase b (Suc (Suc k)) ?es"
    using p(2) nd by simp
  ultimately show ?case by blast
qed

lemma poll_phase_length: "poll_phase b K es \<Longrightarrow> length es = 2 * K - 1"
  by (induction b K es rule: poll_phase.induct) simp_all

lemma poll_phase_events:
  "poll_phase b K es \<Longrightarrow> e \<in> set es \<Longrightarrow>
     e = Sleep 0.005 \<or> (\<exists>v. e = BusWriteThenRead [MMC5603_STATUS_REG] [v])"
  by (induction b K es rule: poll_phase.induct) auto

lemma first_done_at_unique:
  "first_done_at D b K d \<Longrightarrow> first_done_at D b K' d \<Longrightarrow> K = K'"
proof (induction D b K d arbitrary: K' rule: first_done_at.induct)
  case (1 D b d)
  then show ?case by simp
next
  case (2 D b d)
  then show ?case by (cases K'; cases "K' - 1") auto
next
  case (3 D b k d)
  show ?case
  proof (cases K')
    case 0
    with 3(3) show ?thesis by simp
  next
    case (Suc n)
    show ?thesis
    proof (cases n)
      case 0
      with Suc 3(2,3) show ?thesis by simp
    next
      case (Suc m)
      with \<open>K' = Suc n\<close> 3(2,3) have "first_done_at D b (Suc m)
          (on_sleep D 0.005 (snd (on_read D [MMC5603_STATUS_REG] 1 d)))"
        and "first_done_at D b (Suc k)
          (on_sleep D 0.005 (snd (on_read D [MMC5603_STATUS_REG] 1 d)))"
        by simp_all
      from 3(1) [OF this(2,1)] Suc \<open>K' = Suc n\<close> show ?thesis by simp
    qed
  qed
qed

lemma wait_done_buffer_update:
  "wait_done D b (w\<lparr>buffer := x\<rparr>) = map_option (\<lambda>w'. w'\<lparr>buffer := x\<rparr>) (wait_done D b w)"
proof (cases "wait_done D b w")
  case None
  have "wait_done D b (w\<lparr>buffer := x\<rparr>) = None"
  proof (rule ccontr)
    assume "wait_done D b (w\<lparr>buffer := x\<rparr>) \<noteq> None"
    then obtain w' where "wait_done D b (w\<lparr>buffer := x\<rparr>) = Some w'" by auto
    from wait_done_terminated [OF this] obtain K where "first_done_at D b K (dev w)" by auto
    from wait_done_first [OF this] None show False by simp
  qed
  with None show ?thesis by simp
next
  case (Some w')
  from wait_done_SomeD [OF this] obtain K where K: "first_done_at D b K (dev w)" "w' = polled D b K w"
    by blast
  then have "first_done_at D b K (dev (w\<lparr>buffer := x\<rparr>))" by simp
  from wait_done_first [OF this] Some K show ?thesis by (simp add: polled_buffer_update)
qed

text \<open>The loop does not return exactly when no poll ever sees the bit set.\<close>

lemma wait_done_None_iff:
  "wait_done D b w = None \<longleftrightarrow> (\<forall>K. \<not> first_done_at D b K (dev w))"
proof
  assume "wait_done D b w = None"
  then show "\<forall>K. \<not> first_done_at D b K (dev w)"
    using wait_done_first [of D b _ w] by auto
next
  assume "\<forall>K. \<not> first_done_at D b K (dev w)"
  then show "wait_done D b w = None"
    using wait_done_terminated [of D b w] by (cases "wait_done D b w") auto
qed

text \<open>The loop through the eyes of the device, and the loop cut off after \<open>n\<close> polls.\<close>

lemma polled_eq:
  "polled D b K w =
     w\<lparr>dev := settled D K (dev w), clock := clock w + of_nat (K - 1) * 0.005,
       trace := trace w @ poll_events D K (dev w)\<rparr>"
proof (induction D b K w rule: polled.induct)
  case (1 D b w)
  then show ?case by simp
next
  case (2 D b w)
  then show ?case by (simp add: prim_defs Let_def)
next
  case (3 D b k w)
  then show ?case by (simp add: prim_defs Let_def algebra_simps)
qed

lemma poll_events_phase: "first_done_at D b K d \<Longrightarrow> poll_phase b K (poll_events D K d)"
  by (induction D b K d rule: first_done_at.induct) simp_all

lemma wait_done_within_done:
  "first_done_at D b K (dev w) \<Longrightarrow> K \<le> n \<Longrightarrow> wait_done_within n D b w = Inr (polled D b K w)"
proof (induction D b K w arbitrary: n rule: polled.induct)
  case (1 D b w)
  then show ?case by simp
next
  case (2 D b w)
  then obtain m where "n = Suc m" by (cases n) auto
  with 2 show ?case by (simp add: rw_bit_get_fst Let_def)
next
  case (3 D b k w)
  then obtain m where m: "n = Suc m" "Suc k \<le> m" by (cases n) auto
  from 3(2) have "first_done_at D b (Suc k)
      (dev (sleep D 0.005 (snd (rw_bit_get D MMC5603_STATUS_REG b w))))"
    and "\<not> fst (rw_bit_get D MMC5603_STATUS_REG b w)"
    by (simp_all add: rw_bit_get_fst rw_bit_get_dev sleep_dev)
  with 3(1) [OF this(1) m(2)] m(1) show ?case by (simp add: Let_def)
qed

lemma wait_done_within_Inr:
  "wait_done_within n D b w = Inr w' \<Longrightarrow> wait_done D b w = Some w'"
proof (induction n arbitrary: w)
  case 0
  then show ?case by simp
next
  case (Suc n)
  show ?case
  proof (cases "fst (rw_bit_get D MMC5603_STATUS_REG b w)")
    case True
    with Suc(2) show ?thesis by (subst wait_done.simps) (simp add: Let_def)
  next
    case False
    with Suc(2) have "wait_done_within n D b
        (sleep D 0.005 (snd (rw_bit_get D MMC5603_STATUS_REG b w))) = Inr w'"
      by (simp add: Let_def)
    from Suc(1) [OF this] False show ?thesis by (subst wait_done.simps) (simp add: Let_def)
  qed
qed

lemma wait_done_iff_within:
  "wait_done D b w = Some w' \<longleftrightarrow> (\<exists>n. wait_done_within n D b w = Inr w')"
proof
  assume "wait_done D b w = Some w'"
  from wait_done_SomeD [OF this] obtain K where "first_done_at D b K (dev w)" "w' = polled D b K w"
    by blast
  with wait_done_within_done [of D b K w K] show "\<exists>n. wait_done_within n D b w = Inr w'"
    by auto
next
  assume "\<exists>n. wait_done_within n D b w = Inr w'"
  then show "wait_done D b w = Some w'" by (auto dest: wait_done_within_Inr)
qed

lemma wait_done_within_trace:
  "\<exists>es. trace (case wait_done_within n D b w of Inl s \<Rightarrow> s | Inr s \<Rightarrow> s) = trace w @ es \<and>
        (\<forall>e \<in> set es. e = Sleep 0.005 \<or> (\<exists>v. e = BusWriteThenRead [0x18] [v]))"
proof (induction n arbitrary: w)
  case 0
  then show ?case by simp
next
  case (Suc n)
  let ?r = "rw_bit_get D MMC5603_STATUS_REG b w"
  have t1: "trace (snd ?r) =
      trace w @ [BusWriteThenRead [0x18] [fst (on_read D [0x18] 1 (dev w)) 0]]"
    by (simp add: prim_defs reg_defs Let_def)
  show ?case
  proof (cases "fst ?r")
    case True
    then show ?thesis using t1 by (simp add: Let_def)
  next
    case False
    let ?w1 = "sleep D 0.005 (snd ?r)"
    from Suc [of ?w1] obtain es where
      es: "trace (case wait_done_within n D b ?w1 of Inl s \<Rightarrow> s | Inr s \<Rightarrow> s) = trace ?w1 @ es"
        "\<forall>e \<in> set es. e = Sleep 0.005 \<or> (\<exists>v. e = BusWriteThenRead [0x18] [v])"
      by blast
    have "trace ?w1 = trace w @
        [BusWriteThenRead [0x18] [fst (on_read D [0x18] 1 (dev w)) 0], Sleep 0.005]"
      using t1 by (simp add: sleep_def)
    with es(1) False have "trace (case wait_done_within (Suc n) D b w of Inl s \<Rightarrow> s | Inr s \<Rightarrow> s) =
        trace w @ (BusWriteThenRead [0x18] [fst (on_read D [0x18] 1 (dev w)) 0] # Sleep 0.005 # es)"
      by (simp add: Let_def)
    moreover have "\<forall>e \<in> set (BusWriteThenRead [0x18] [fst (on_read D [0x18] 1 (dev w)) 0] #
        Sleep 0.005 # es). e = Sleep 0.005 \<or> (\<exists>v. e = BusWriteThenRead [0x18] [v])"
      using es(2) by simp
    ultimately show ?thesis by blast
  qed
qed

subsection \<open>reset\<close>

text \<open>
  C6. Every call to \<^verbatim>\<open>reset\<close> writes exactly the byte 0x80 to control register 1 (address
  0x1C) and then sleeps 20 ms, so the clock has advanced by at least 20 ms when it
  returns; it returns no value (the model's result is the state alone), and it does
  nothing else on the bus: the state is the old one with the device after that write and
  that sleep, the clock advanced and these two events appended to the trace.
\<close>

theorem reset_protocol:
  "trace (reset D w) = trace w @ [BusWrite [0x1C, 0x80], Sleep 0.020] \<and>
   clock w + 0.020 \<le> clock (reset D w) \<and>
   reset D w =
     w\<lparr>dev := on_sleep D 0.020 (on_write D [0x1C, 0x80] (dev w)),
       clock := clock w + 0.020,
       trace := trace w @ [BusWrite [0x1C, 0x80], Sleep 0.020]\<rparr>"
  by (simp add: reset_def prim_defs reg_defs)

subsection \<open>Construction\<close>

lemma uint_eq_16: "uint (pid :: u8) = 16 \<longleftrightarrow> pid = 16"
  using word_uint_eq_iff [of pid 16] by simp

text \<open>
  C3. Let \<open>pid\<close> be the byte the device answers when the product-id register 0x39 is read,
  after the probe of the bus handle. If \<open>pid\<close> is not 0x10, construction raises
  \<^verbatim>\<open>RuntimeError("Failed to find MMC5603 - check your wiring!")\<close>, the error the driver has
  for a missing device (the module defines no \<^verbatim>\<open>DeviceNotFoundError\<close>): the probe and the
  read of the id are the only bus transactions, the chip is not reset, the buffer is not
  allocated, and no object reaches the caller, so that no use of it runs, whatever the use.
  If \<open>pid\<close> is 0x10, construction succeeds: the chip is reset, the buffer is 9 zero
  bytes, and the caller's use runs on that driver.
\<close>

theorem init_checks_product_id:
  fixes D :: "'d device" and w :: "'d state" and a :: int
  defines "d0 \<equiv> on_write D [] (dev w)"
  defines "pid \<equiv> fst (on_read D [0x39] 1 d0) 0"
  defines "failed \<equiv>
    w\<lparr>dev := snd (on_read D [0x39] 1 d0),
      trace := trace w @ [BusWrite [], BusWriteThenRead [0x39] [pid]],
      address := a, buffer := None\<rparr>"
  shows "(pid \<noteq> 0x10 \<longrightarrow>
           init D a w =
             (Inl (RuntimeError ''Failed to find MMC5603 - check your wiring!''), failed) \<and>
           (\<forall>use :: 'd state \<Rightarrow> 'r. construct_then D a w use =
             Inl (RuntimeError ''Failed to find MMC5603 - check your wiring!'', failed))) \<and>
         (pid = 0x10 \<longrightarrow>
           init D a w =
             (Inr (),
              w\<lparr>dev := on_sleep D 0.020 (on_write D [0x1C, 0x80] (snd (on_read D [0x39] 1 d0))),
                clock := clock w + 0.020,
                trace := trace w @ [BusWrite [], BusWriteThenRead [0x39] [0x10],
                                    BusWrite [0x1C, 0x80], Sleep 0.020],
                address := a, buffer := Some (replicate 9 0)\<rparr>) \<and>
           (\<forall>use :: 'd state \<Rightarrow> 'r. construct_then D a w use = Inr (use (snd (init D a w)))))"
  unfolding d0_def pid_def failed_def
  by (simp add: init_def construct_then_def i2c_device_init_def reset_def prim_defs reg_defs
      Let_def uint_eq_16)

subsection \<open>The configuration setters\<close>

text \<open>
  C8. For every argument, every driver state and whatever the rest of the setter would do,
  the setters of \<^verbatim>\<open>data_rate\<close>, \<^verbatim>\<open>performance_mode\<close> and \<^verbatim>\<open>operation_mode\<close> raise
  \<^verbatim>\<open>NameError\<close> on the undefined name they load first, and leave the state as it was: no
  register is written and no configuration takes effect.
\<close>

theorem setters_raise_name_error:
  "data_rate_setter body1 v1 w = (Inl (NameError ''Rate''), w) \<and>
   performance_mode_setter body2 v2 w = (Inl (NameError ''PerformanceMode''), w) \<and>
   operation_mode_setter body3 v3 w = (Inl (NameError ''OperationMode''), w)"
  by (simp add: data_rate_setter_def performance_mode_setter_def operation_mode_setter_def
      load_global_def module_globals_def)

subsection \<open>temperature\<close>

lemma temperature_returns:
  fixes D :: "'d device" and w :: "'d state" and K :: nat
  defines "d0 \<equiv> on_write D [0x1B, 0x02] (dev w)"
  defines "dK \<equiv> settled D K d0"
  assumes "first_done_at D 7 K d0"
  shows "temperature R D w =
           Some (celsius R (raw_temp D dK),
             w\<lparr>dev := snd (on_read D [0x09] 1 dK),
               clock := clock w + of_nat (K - 1) * 0.005,
               trace := trace w @ BusWrite [0x1B, 0x02] # poll_events D K d0 @
                          [BusWriteThenRead [0x09] [raw_temp D dK]]\<rparr>)"
proof -
  let ?w0 = "unary_struct_set D MMC5603_CTRL_REG0 0x02 w"
  from assms(3) have "first_done_at D 7 K (dev ?w0)"
    by (simp add: prim_defs reg_defs d0_def)
  from wait_done_first [OF this] have "wait_done D 7 ?w0 = Some (polled D 7 K ?w0)" .
  then show ?thesis
    by (simp add: temperature_def Let_def polled_eq dK_def d0_def celsius_def raw_temp_def
        prim_defs reg_defs)
qed

lemma temperature_SomeD:
  assumes "temperature R D w = Some r"
  shows "\<exists>K. first_done_at D 7 K (on_write D [0x1B, 0x02] (dev w))"
proof -
  from assms obtain w1 where
    "wait_done D 7 (unary_struct_set D MMC5603_CTRL_REG0 0x02 w) = Some w1"
    by (auto simp: temperature_def split: option.splits)
  from wait_done_terminated [OF this] show ?thesis
    by (simp add: prim_defs reg_defs)
qed

lemma temperature_None_iff:
  "temperature R D w = None \<longleftrightarrow>
     (\<forall>K. \<not> first_done_at D 7 K (on_write D [0x1B, 0x02] (dev w)))"
proof -
  have "temperature R D w = None \<longleftrightarrow>
      wait_done D 7 (unary_struct_set D MMC5603_CTRL_REG0 0x02 w) = None"
    by (simp add: temperature_def Let_def split: option.splits)
  then show ?thesis
    by (simp add: wait_done_None_iff prim_defs reg_defs)
qed

text \<open>
  C2. If, after the write of 0x02 to control register 0, the status register shows bit 7
  first at poll \<open>K\<close>, and \<open>raw\<close> is the byte the device then delivers for register 0x09
  (any of the 256 bytes), \<^verbatim>\<open>temperature\<close> returns, in the state written out below, the
  double \<open>celsius binary64 raw\<close>: the product of \<open>raw\<close> and the double nearest to 0.8,
  rounded, minus 75, rounded. It is within \<open>10^-13\<close> of \<open>0.8 * raw - 75\<close>, and equal to it
  for \<open>raw = 0\<close> (-75.0) and \<open>raw = 255\<close> (129.0).
\<close>

theorem temperature_conversion:
  fixes D :: "'d device" and w :: "'d state" and K :: nat
  defines "d0 \<equiv> on_write D [0x1B, 0x02] (dev w)"
  defines "dK \<equiv> settled D K d0"
  defines "raw \<equiv> raw_temp D dK"
  assumes "first_done_at D 7 K d0"
  shows "temperature binary64 D w =
           Some (celsius binary64 raw,
             w\<lparr>dev := snd (on_read D [0x09] 1 dK),
               clock := clock w + of_nat (K - 1) * 0.005,
               trace := trace w @ BusWrite [0x1B, 0x02] # poll_events D K d0 @
                          [BusWriteThenRead [0x09] [raw]]\<rparr>) \<and>
         celsius binary64 raw = binary64 (binary64 (of_int (uint raw) * binary64 0.8) - 75) \<and>
         \<bar>celsius binary64 raw - (0.8 * of_int (uint raw) - 75)\<bar> \<le> 1 / 10 ^ 13 \<and>
         (raw = 0 \<longrightarrow> celsius binary64 raw = - 75) \<and>
         (raw = 255 \<longrightarrow> celsius binary64 raw = 129)"
  using temperature_returns [OF assms(4) [unfolded d0_def], of binary64]
    celsius_binary64 [of raw] celsius_error [of raw] celsius_instances
  unfolding d0_def dK_def raw_def by simp

lemma unary_struct_set_buffer_update:
  "unary_struct_set D a v (w\<lparr>buffer := x\<rparr>) = (unary_struct_set D a v w)\<lparr>buffer := x\<rparr>"
  by (simp add: prim_defs)

lemma unary_struct_get_buffer_update:
  "unary_struct_get D a (w\<lparr>buffer := x\<rparr>) =
     (fst (unary_struct_get D a w), (snd (unary_struct_get D a w))\<lparr>buffer := x\<rparr>)"
  by (simp add: prim_defs Let_def)

lemma temperature_buffer_update:
  "temperature R D (w\<lparr>buffer := x\<rparr>) =
     map_option (\<lambda>(t, w'). (t, w'\<lparr>buffer := x\<rparr>)) (temperature R D w)"
  by (simp add: temperature_def unary_struct_set_buffer_update wait_done_buffer_update
      unary_struct_get_buffer_update Let_def split: option.splits)

text \<open>
  C9. A call of \<^verbatim>\<open>temperature\<close> that returns leaves the measurement buffer as it was, and
  its bus traffic is the write to control register 0, the status polls, and one read of
  one byte from the temperature register 0x09. It does not read the buffer either:
  replacing the buffer before the call by anything changes neither the value returned nor
  the rest of the final state, and the replacement is still there afterwards.
\<close>

theorem temperature_frame:
  "(temperature R D w = Some (t, w') \<longrightarrow>
      buffer w' = buffer w \<and>
      (\<exists>K polls raw.
         trace w' = trace w @ BusWrite [0x1B, 0x02] # polls @ [BusWriteThenRead [0x09] [raw]] \<and>
         poll_phase 7 K polls)) \<and>
   temperature R D (w\<lparr>buffer := x\<rparr>) =
     map_option (\<lambda>(t, w'). (t, w'\<lparr>buffer := x\<rparr>)) (temperature R D w)"
proof -
  have "buffer w' = buffer w \<and>
      (\<exists>K polls raw.
         trace w' = trace w @ BusWrite [0x1B, 0x02] # polls @ [BusWriteThenRead [0x09] [raw]] \<and>
         poll_phase 7 K polls)" if r: "temperature R D w = Some (t, w')"
  proof -
    from temperature_SomeD [OF r] obtain K where
      K: "first_done_at D 7 K (on_write D [0x1B, 0x02] (dev w))" by blast
    from temperature_returns [OF K, of R] r have
      "buffer w' = buffer w"
      "trace w' = trace w @ BusWrite [0x1B, 0x02] #
         poll_events D K (on_write D [0x1B, 0x02] (dev w)) @
         [BusWriteThenRead [0x09] [raw_temp D (settled D K (on_write D [0x1B, 0x02] (dev w)))]]"
      by auto
    with poll_events_phase [OF K] show ?thesis by blast
  qed
  then show ?thesis using temperature_buffer_update [where D = D and w = w and x = x] by blast
qed

subsection \<open>magnetic\<close>

lemma take_1_update: "b \<noteq> [] \<Longrightarrow> take (Suc 0) (b[0 := v]) = [v]"
  by (cases b) simp_all

lemma read_axes_reading:
  fixes D :: "'d device" and w1 :: "'d state" and b0 :: "u8 list"
  defines "bs \<equiv> map (fst (on_read D [0x00] (length b0) (dev w1))) [0..<length b0]"
  assumes "buffer w1 = Some b0" and "9 \<le> length b0"
  shows "read_axes R D w1 =
           (Inr (axis R bs 0, axis R bs 1, axis R bs 2),
            w1\<lparr>dev := snd (on_read D [0x00] (length b0) (dev w1)),
               trace := trace w1 @ [BusWriteThenRead [0x00] bs],
               buffer := Some bs\<rparr>)"
proof -
  from assms(3) have ne: "b0 \<noteq> []" by auto
  have len: "length bs = length b0" by (simp add: bs_def)
  let ?r = "i2c_write_then_readinto D [0x00] (length b0) w1"
  have r: "fst ?r = bs"
    "snd ?r = w1\<lparr>dev := snd (on_read D [0x00] (length b0) (dev w1)),
                  trace := trace w1 @ [BusWriteThenRead [0x00] bs]\<rparr>"
    by (simp_all add: i2c_write_then_readinto_def Let_def bs_def)
  have p: "packed bs 0 = push_bit 12 (uint (bs ! 0)) OR push_bit 4 (uint (bs ! 1))
                            OR drop_bit 4 (uint (bs ! 6))"
    "packed bs 1 = push_bit 12 (uint (bs ! 2)) OR push_bit 4 (uint (bs ! 3))
                            OR drop_bit 4 (uint (bs ! 7))"
    "packed bs 2 = push_bit 12 (uint (bs ! 4)) OR push_bit 4 (uint (bs ! 5))
                            OR drop_bit 4 (uint (bs ! 8))"
    "packed bs (Suc 0) = push_bit 12 (uint (bs ! 2)) OR push_bit 4 (uint (bs ! 3))
                            OR drop_bit 4 (uint (bs ! 7))"
    by (simp_all add: packed_def)
  show ?thesis
    using assms(2,3) ne len
    by (simp add: read_axes_def take_1_update MMC5603_OUT_X_L_def r Let_def axis_def p)
qed

lemma read_axes_InrD:
  assumes "read_axes R D w1 = (Inr xyz, w2)"
  shows "\<exists>b0. buffer w1 = Some b0 \<and> 9 \<le> length b0"
proof -
  from assms obtain b0 where b0: "buffer w1 = Some b0" "b0 \<noteq> []"
    by (auto simp: read_axes_def split: option.splits if_splits)
  with assms have "9 \<le> length b0"
    by (auto simp: read_axes_def Let_def i2c_write_then_readinto_def split: if_splits)
  with b0 show ?thesis by blast
qed

lemma read_axes_trace: "\<exists>es. trace (snd (read_axes R D w1)) = trace w1 @ es"
  by (simp add: read_axes_def Let_def i2c_write_then_readinto_def split: option.splits)

lemma magnetic_returns:
  fixes D :: "'d device" and w :: "'d state" and K :: nat
  defines "d0 \<equiv> on_write D [0x1B, 0x21] (dev w)"
  defines "dK \<equiv> settled D K d0"
  defines "bs \<equiv> readback D dK"
  assumes "constructed w" and "first_done_at D 6 K d0"
  shows "magnetic R D w =
           Some (Inr (axis R bs 0, axis R bs 1, axis R bs 2),
             w\<lparr>dev := snd (on_read D [0x00] 9 dK),
               clock := clock w + of_nat (K - 1) * 0.005,
               trace := trace w @ BusWrite [0x1B, 0x21] # poll_events D K d0 @
                          [BusWriteThenRead [0x00] bs],
               buffer := Some bs\<rparr>)"
proof -
  let ?w0 = "unary_struct_set D MMC5603_CTRL_REG0 0x21 w"
  from assms(5) have "first_done_at D 6 K (dev ?w0)"
    by (simp add: prim_defs reg_defs d0_def)
  from wait_done_first [OF this] have w1: "wait_done D 6 ?w0 = Some (polled D 6 K ?w0)" .
  from assms(4) obtain b0 where b0: "buffer w = Some b0" "length b0 = 9"
    by (auto simp: constructed_def split: option.splits)
  then have b: "buffer (polled D 6 K ?w0) = Some b0" "9 \<le> length b0"
    by (simp_all add: polled_buffer prim_defs)
  have d: "dev (polled D 6 K ?w0) = dK"
    by (simp add: polled_eq dK_def d0_def prim_defs reg_defs)
  show ?thesis
    using w1 read_axes_reading [OF b, of R D]
    by (simp add: magnetic_def d b0(2) bs_def readback_def)
      (simp add: polled_eq prim_defs reg_defs d0_def dK_def)
qed

lemma magnetic_SomeD:
  assumes "magnetic R D w = Some r"
  shows "\<exists>K. first_done_at D 6 K (on_write D [0x1B, 0x21] (dev w))"
proof -
  from assms obtain w1 where
    "wait_done D 6 (unary_struct_set D MMC5603_CTRL_REG0 0x21 w) = Some w1"
    by (auto simp: magnetic_def split: option.splits)
  from wait_done_terminated [OF this] show ?thesis
    by (simp add: prim_defs reg_defs)
qed

lemma magnetic_None_iff:
  "magnetic R D w = None \<longleftrightarrow>
     (\<forall>K. \<not> first_done_at D 6 K (on_write D [0x1B, 0x21] (dev w)))"
proof -
  have "magnetic R D w = None \<longleftrightarrow>
      wait_done D 6 (unary_struct_set D MMC5603_CTRL_REG0 0x21 w) = None"
    by (simp add: magnetic_def split: option.splits)
  then show ?thesis
    by (simp add: wait_done_None_iff prim_defs reg_defs)
qed

lemma magnetic_InrD:
  assumes "magnetic R D w = Some (Inr (x, y, z), w')"
  shows "\<exists>K polls b0 bs.
           first_done_at D 6 K (on_write D [0x1B, 0x21] (dev w)) \<and>
           poll_phase 6 K polls \<and>
           buffer w = Some b0 \<and> length bs = length b0 \<and> 9 \<le> length bs \<and>
           trace w' = trace w @ BusWrite [0x1B, 0x21] # polls @ [BusWriteThenRead [0x00] bs] \<and>
           buffer w' = Some bs \<and>
           clock w' = clock w + of_nat (K - 1) * 0.005 \<and>
           x = axis R bs 0 \<and> y = axis R bs 1 \<and> z = axis R bs 2"
proof -
  let ?w0 = "unary_struct_set D MMC5603_CTRL_REG0 0x21 w"
  from magnetic_SomeD [OF assms] obtain K where
    K: "first_done_at D 6 K (on_write D [0x1B, 0x21] (dev w))" by blast
  then have "first_done_at D 6 K (dev ?w0)"
    by (simp add: prim_defs reg_defs)
  from wait_done_first [OF this] have w1: "wait_done D 6 ?w0 = Some (polled D 6 K ?w0)" .
  with assms have ra: "read_axes R D (polled D 6 K ?w0) = (Inr (x, y, z), w')"
    by (simp add: magnetic_def)
  from read_axes_InrD [OF this] obtain b0 where
    b0: "buffer (polled D 6 K ?w0) = Some b0" "9 \<le> length b0" by blast
  let ?bs = "map (fst (on_read D [0x00] (length b0) (dev (polled D 6 K ?w0)))) [0..<length b0]"
  from read_axes_reading [OF b0, of R D] ra have
    xyz: "x = axis R ?bs 0" "y = axis R ?bs 1" "z = axis R ?bs 2"
    and w': "w' = (polled D 6 K ?w0)\<lparr>dev := snd (on_read D [0x00] (length b0)
                                                  (dev (polled D 6 K ?w0))),
               trace := trace (polled D 6 K ?w0) @ [BusWriteThenRead [0x00] ?bs],
               buffer := Some ?bs\<rparr>"
    by simp_all
  have "trace w' = trace w @ BusWrite [0x1B, 0x21] #
      poll_events D K (on_write D [0x1B, 0x21] (dev w)) @ [BusWriteThenRead [0x00] ?bs]"
    unfolding w' by (simp add: polled_eq prim_defs reg_defs)
  moreover have "buffer w' = Some ?bs" unfolding w' by simp
  moreover have "clock w' = clock w + of_nat (K - 1) * 0.005"
    unfolding w' by (simp add: polled_eq prim_defs)
  moreover have "buffer w = Some b0" using b0(1) by (simp add: polled_buffer prim_defs)
  moreover have "length ?bs = length b0" "9 \<le> length ?bs" using b0(2) by simp_all
  ultimately show ?thesis using K poll_events_phase [OF K] xyz by blast
qed

lemma magnetic_terminates:
  assumes "first_done_at D 6 K (on_write D [0x1B, 0x21] (dev w))" and "constructed w"
  shows "\<exists>xyz w'. magnetic R D w = Some (Inr xyz, w')"
  using magnetic_returns [OF assms(2,1), of R] by blast

lemma magnetic_constructed:
  assumes "magnetic R D w = Some (r, w')" and "constructed w"
  shows "\<exists>xyz. r = Inr xyz"
proof -
  from magnetic_SomeD [OF assms(1)] obtain K where
    "first_done_at D 6 K (on_write D [0x1B, 0x21] (dev w))" by blast
  from magnetic_terminates [OF this assms(2), of R] assms(1) show ?thesis by auto
qed

lemma magnetic_iff_within:
  "magnetic R D w = Some r \<longleftrightarrow> (\<exists>n. magnetic_within n R D w = Inr r)"
proof -
  let ?w0 = "unary_struct_set D MMC5603_CTRL_REG0 0x21 w"
  have m: "magnetic R D w = Some r \<longleftrightarrow>
      (\<exists>w1. wait_done D 6 ?w0 = Some w1 \<and> r = read_axes R D w1)"
    by (auto simp: magnetic_def split: option.splits)
  have n: "magnetic_within n R D w = Inr r \<longleftrightarrow>
      (\<exists>w1. wait_done_within n D 6 ?w0 = Inr w1 \<and> r = read_axes R D w1)" for n
    by (cases "wait_done_within n D 6 ?w0") (auto simp: magnetic_within_def)
  show ?thesis
    unfolding m n wait_done_iff_within by blast
qed

lemma state_reached_simps:
  "state_reached (Inl s) = s" "state_reached (Inr rw) = snd rw"
  by (simp_all add: state_reached_def split: prod.splits)

lemma magnetic_within_trace:
  "\<exists>es. trace (state_reached (magnetic_within n R D w)) = trace w @ BusWrite [0x1B, 0x21] # es"
proof -
  let ?w0 = "unary_struct_set D MMC5603_CTRL_REG0 0x21 w"
  have t0: "trace ?w0 = trace w @ [BusWrite [0x1B, 0x21]]"
    by (simp add: prim_defs reg_defs)
  from wait_done_within_trace [of n D 6 ?w0] obtain es where
    es: "trace (case wait_done_within n D 6 ?w0 of Inl s \<Rightarrow> s | Inr s \<Rightarrow> s) = trace ?w0 @ es"
    by blast
  show ?thesis
  proof (cases "wait_done_within n D 6 ?w0")
    case (Inl s)
    with es t0 show ?thesis by (simp add: magnetic_within_def state_reached_def)
  next
    case (Inr w1)
    from read_axes_trace [of R D w1] obtain es' where
      "trace (snd (read_axes R D w1)) = trace w1 @ es'" by blast
    with Inr es t0 show ?thesis
      by (simp add: magnetic_within_def state_reached_simps)
  qed
qed

text \<open>
  C5. For a constructed driver and every device. If, after the write of 0x21 to control
  register 0 (address 0x1B), the status register shows bit 6 first at poll \<open>K\<close>, the call
  of \<^verbatim>\<open>magnetic\<close> returns a reading in exactly this state: the device after the write, the
  \<open>K\<close> polls and one combined transaction that writes the byte 0x00 and reads 9 bytes;
  the trace extended by the write of \<open>[0x1B, 0x21]\<close>, the polls, and that one transaction;
  the buffer holding the 9 bytes \<open>bs\<close> the device delivered. The call does not return
  exactly when no poll ever shows bit 6. Returned or not, at every number \<open>n\<close> of polls
  the trace of what the call has done so far begins with the write of \<open>[0x1B, 0x21]\<close>;
  and the call returns \<open>r\<close> exactly when its run cut off after some \<open>n\<close> polls has.
\<close>

theorem magnetic_protocol:
  fixes D :: "'d device" and w :: "'d state" and K :: nat
  defines "d0 \<equiv> on_write D [0x1B, 0x21] (dev w)"
  defines "dK \<equiv> settled D K d0"
  defines "bs \<equiv> readback D dK"
  assumes "constructed w"
  shows "(first_done_at D 6 K d0 \<longrightarrow>
           (\<exists>xyz. magnetic R D w =
              Some (Inr xyz,
                w\<lparr>dev := snd (on_read D [0x00] 9 dK),
                  clock := clock w + of_nat (K - 1) * 0.005,
                  trace := trace w @ BusWrite [0x1B, 0x21] # poll_events D K d0 @
                             [BusWriteThenRead [0x00] bs],
                  buffer := Some bs\<rparr>)) \<and>
           poll_phase 6 K (poll_events D K d0) \<and> length bs = 9) \<and>
         (magnetic R D w = None \<longleftrightarrow> (\<forall>J. \<not> first_done_at D 6 J d0)) \<and>
         (\<forall>n. \<exists>es. trace (state_reached (magnetic_within n R D w)) =
                   trace w @ BusWrite [0x1B, 0x21] # es) \<and>
         (\<forall>r. magnetic R D w = Some r \<longleftrightarrow> (\<exists>n. magnetic_within n R D w = Inr r))"
proof (intro conjI impI allI)
  assume K: "first_done_at D 6 K d0"
  from magnetic_returns [OF assms(4) K [unfolded d0_def], of R]
  show "\<exists>xyz. magnetic R D w =
              Some (Inr xyz,
                w\<lparr>dev := snd (on_read D [0x00] 9 dK),
                  clock := clock w + of_nat (K - 1) * 0.005,
                  trace := trace w @ BusWrite [0x1B, 0x21] # poll_events D K d0 @
                             [BusWriteThenRead [0x00] bs],
                  buffer := Some bs\<rparr>)"
    unfolding d0_def dK_def bs_def by blast
  from K show "poll_phase 6 K (poll_events D K d0)" by (rule poll_events_phase)
next
  show "length bs = 9" if "first_done_at D 6 K d0" by (simp add: bs_def readback_def)
next
  show "magnetic R D w = None \<longleftrightarrow> (\<forall>J. \<not> first_done_at D 6 J d0)"
    unfolding d0_def by (rule magnetic_None_iff)
next
  fix n
  show "\<exists>es. trace (state_reached (magnetic_within n R D w)) =
                   trace w @ BusWrite [0x1B, 0x21] # es"
    by (rule magnetic_within_trace)
next
  fix r
  show "magnetic R D w = Some r \<longleftrightarrow> (\<exists>n. magnetic_within n R D w = Inr r)"
    by (rule magnetic_iff_within)
qed

text \<open>
  C1. For a constructed driver on a device that shows bit 6 first at poll \<open>K\<close> and then
  delivers the 9 bytes \<open>bs\<close> (any 9 bytes), \<^verbatim>\<open>magnetic\<close> returns the triple whose axis \<open>i\<close>
  (0, 1, 2 for X, Y, Z) is the double \<open>axis binary64 bs i\<close>: the integer
  \<open>(bs[2i] << 12 | bs[2i+1] << 4 | bs[6+i] >> 4) - 2^19\<close> times the double nearest to
  0.00625, rounded; and \<open>bs\<close> is the buffer afterwards. The value is within \<open>10^-12\<close> of
  the exact product. The bytes 0x80, 0, 0x80, 0, 0x80, 0, 0, 0, 0 give \<open>(0, 0, 0)\<close>, and an
  axis whose packed value is \<open>(1 << 19) + 160\<close> reads 1.
\<close>

theorem magnetic_decode:
  fixes D :: "'d device" and w :: "'d state" and K :: nat
  defines "d0 \<equiv> on_write D [0x1B, 0x21] (dev w)"
  defines "dK \<equiv> settled D K d0"
  defines "bs \<equiv> readback D dK"
  assumes "constructed w" and "first_done_at D 6 K d0"
  shows "(\<exists>w'. magnetic binary64 D w =
             Some (Inr (axis binary64 bs 0, axis binary64 bs 1, axis binary64 bs 2), w') \<and>
           buffer w' = Some bs) \<and>
         (\<forall>i<3.
            axis binary64 bs i =
              binary64 (of_int ((push_bit 12 (uint (bs ! (2 * i)))
                                   OR push_bit 4 (uint (bs ! (2 * i + 1)))
                                   OR drop_bit 4 (uint (bs ! (6 + i)))) - 2 ^ 19)
                        * binary64 0.00625) \<and>
            \<bar>axis binary64 bs i -
               of_int ((push_bit 12 (uint (bs ! (2 * i)))
                          OR push_bit 4 (uint (bs ! (2 * i + 1)))
                          OR drop_bit 4 (uint (bs ! (6 + i)))) - 2 ^ 19) * 0.00625\<bar>
              \<le> 1 / 10 ^ 12) \<and>
         (bs = [0x80, 0x00, 0x80, 0x00, 0x80, 0x00, 0x00, 0x00, 0x00] \<longrightarrow>
            (axis binary64 bs 0, axis binary64 bs 1, axis binary64 bs 2) = (0, 0, 0)) \<and>
         (\<forall>i<3. push_bit 12 (uint (bs ! (2 * i))) OR push_bit 4 (uint (bs ! (2 * i + 1)))
                   OR drop_bit 4 (uint (bs ! (6 + i))) = 2 ^ 19 + 160 \<longrightarrow>
                 axis binary64 bs i = 1)"
proof (intro conjI)
  from magnetic_returns [OF assms(4) assms(5) [unfolded d0_def], of binary64]
  show "\<exists>w'. magnetic binary64 D w =
             Some (Inr (axis binary64 bs 0, axis binary64 bs 1, axis binary64 bs 2), w') \<and>
           buffer w' = Some bs"
    unfolding d0_def dK_def bs_def by simp
  show "\<forall>i<3.
            axis binary64 bs i =
              binary64 (of_int ((push_bit 12 (uint (bs ! (2 * i)))
                                   OR push_bit 4 (uint (bs ! (2 * i + 1)))
                                   OR drop_bit 4 (uint (bs ! (6 + i)))) - 2 ^ 19)
                        * binary64 0.00625) \<and>
            \<bar>axis binary64 bs i -
               of_int ((push_bit 12 (uint (bs ! (2 * i)))
                          OR push_bit 4 (uint (bs ! (2 * i + 1)))
                          OR drop_bit 4 (uint (bs ! (6 + i)))) - 2 ^ 19) * 0.00625\<bar>
              \<le> 1 / 10 ^ 12"
    using axis_binary64 [of bs] axis_error [of bs] unfolding packed_def by blast
  show "bs = [0x80, 0x00, 0x80, 0x00, 0x80, 0x00, 0x00, 0x00, 0x00] \<longrightarrow>
            (axis binary64 bs 0, axis binary64 bs 1, axis binary64 bs 2) = (0, 0, 0)"
    using axis_instances by simp
  show "\<forall>i<3. push_bit 12 (uint (bs ! (2 * i))) OR push_bit 4 (uint (bs ! (2 * i + 1)))
                   OR drop_bit 4 (uint (bs ! (6 + i))) = 2 ^ 19 + 160 \<longrightarrow>
                 axis binary64 bs i = 1"
    using axis_one [of bs] unfolding packed_def by blast
qed

lemma scaled_range:
  fixes p :: int
  assumes "0 \<le> p" and "p < 2 ^ 20"
  shows "- 3276.8 \<le> (of_int (p - 2 ^ 19) * 0.00625 :: rat)"
    and "(of_int (p - 2 ^ 19) * 0.00625 :: rat) \<le> 3276.79375"
proof -
  have "(of_int (p - 2 ^ 19) * 0.00625 :: rat) = of_int (p - 524288) / 160"
    by simp
  moreover have "(of_int (- 524288) :: rat) \<le> of_int (p - 524288)"
    using assms(1) by simp
  moreover have "(of_int (p - 524288) :: rat) \<le> of_int 524287"
    using assms(2) by simp
  ultimately show "- 3276.8 \<le> (of_int (p - 2 ^ 19) * 0.00625 :: rat)"
    and "(of_int (p - 2 ^ 19) * 0.00625 :: rat) \<le> 3276.79375"
    by (simp_all add: field_simps)
qed

text \<open>
  C10. Every axis value \<^verbatim>\<open>magnetic\<close> returns, computed in exact arithmetic, lies between
  -3276.8 and 3276.79375: the packed value is in \<open>[0, 2^20 - 1]\<close> (lemma \<open>packed_range\<close>)
  before the offset \<open>2^19\<close> is subtracted and the result scaled by 0.00625.
\<close>

theorem magnetic_range:
  assumes "magnetic exact D w = Some (Inr (x, y, z), w')"
  shows "- 3276.8 \<le> x \<and> x \<le> 3276.79375 \<and>
         - 3276.8 \<le> y \<and> y \<le> 3276.79375 \<and>
         - 3276.8 \<le> z \<and> z \<le> 3276.79375"
proof -
  from magnetic_InrD [OF assms] obtain bs :: "u8 list" where
    "x = axis exact bs 0" "y = axis exact bs 1" "z = axis exact bs 2"
    by blast
  then have x: "x = of_int (packed bs 0 - 2 ^ 19) * 0.00625"
    and y: "y = of_int (packed bs 1 - 2 ^ 19) * 0.00625"
    and z: "z = of_int (packed bs 2 - 2 ^ 19) * 0.00625"
    by (simp_all only: axis_exact)
  have "- 3276.8 \<le> x" "x \<le> 3276.79375"
    unfolding x by (rule scaled_range [OF packed_range])+
  moreover have "- 3276.8 \<le> y" "y \<le> 3276.79375"
    unfolding y by (rule scaled_range [OF packed_range])+
  moreover have "- 3276.8 \<le> z" "z \<le> 3276.79375"
    unfolding z by (rule scaled_range [OF packed_range])+
  ultimately show ?thesis by simp
qed

lemma i2c_write_then_readinto_buffer_update:
  "i2c_write_then_readinto D out n (w\<lparr>buffer := x\<rparr>) =
     (fst (i2c_write_then_readinto D out n w),
      (snd (i2c_write_then_readinto D out n w))\<lparr>buffer := x\<rparr>)"
  by (simp add: prim_defs Let_def)

lemma read_axes_buffer_contents:
  assumes "buffer w1 = Some b" and "length b' = length b"
  shows "read_axes R D (w1\<lparr>buffer := Some b'\<rparr>) = read_axes R D w1"
proof (cases "b = []")
  case True
  with assms(2) have "b' = []" by simp
  with True assms(1) have "w1\<lparr>buffer := Some b'\<rparr> = w1" by simp
  then show ?thesis by simp
next
  case False
  with assms(2) have "b' \<noteq> []" by auto
  with False assms show ?thesis
    by (simp add: read_axes_def i2c_write_then_readinto_buffer_update take_1_update Let_def)
qed

lemma magnetic_buffer_contents:
  assumes "buffer w = Some b" and "length b' = length b"
  shows "magnetic R D (w\<lparr>buffer := Some b'\<rparr>) = magnetic R D w"
proof (cases "wait_done D 6 (unary_struct_set D MMC5603_CTRL_REG0 0x21 w)")
  case None
  then show ?thesis
    by (simp add: magnetic_def unary_struct_set_buffer_update wait_done_buffer_update)
next
  case (Some w1)
  from wait_done_SomeD [OF this] have b1: "buffer w1 = Some b"
    using assms(1) by (auto simp: polled_buffer prim_defs)
  from Some read_axes_buffer_contents [OF b1 assms(2), of R D] show ?thesis
    by (simp add: magnetic_def unary_struct_set_buffer_update wait_done_buffer_update)
qed

text \<open>
  C7. If two calls of \<^verbatim>\<open>magnetic\<close> in succession both return a reading and their read-back
  transactions delivered the same register bytes \<open>bs\<close>, the two readings are equal. No
  state of the driver enters the result: replacing the content of the buffer before a call
  by any other content of the same length leaves the whole outcome of the call unchanged.
\<close>

theorem magnetic_repeatable:
  assumes "magnetic R D w = Some (Inr r1, w1)" and "magnetic R D w1 = Some (Inr r2, w2)"
    and "trace w1 = tr1 @ [BusWriteThenRead out1 bs]"
    and "trace w2 = tr2 @ [BusWriteThenRead out2 bs]"
  shows "r2 = r1 \<and>
         (\<forall>b b'. buffer w = Some b \<and> length b' = length b \<longrightarrow>
                  magnetic R D (w\<lparr>buffer := Some b'\<rparr>) = magnetic R D w)"
proof -
  obtain x1 y1 z1 where r1: "r1 = (x1, y1, z1)" by (cases r1)
  obtain x2 y2 z2 where r2: "r2 = (x2, y2, z2)" by (cases r2)
  from magnetic_InrD [OF assms(1) [unfolded r1]] assms(3) have
    "x1 = axis R bs 0" "y1 = axis R bs 1" "z1 = axis R bs 2"
    by auto
  moreover from magnetic_InrD [OF assms(2) [unfolded r2]] assms(4) have
    "x2 = axis R bs 0" "y2 = axis R bs 1" "z2 = axis R bs 2"
    by auto
  ultimately have "r2 = r1" using r1 r2 by simp
  then show ?thesis using magnetic_buffer_contents [of w _ _ R D] by blast
qed

text \<open>
  C4. For every \<open>K\<close> (necessarily at least 1), if after the write to control register 0 the
  status register shows the done bit (bit 7 for temperature, bit 6 for magnetic) clear at
  the first \<open>K - 1\<close> polls and set at poll \<open>K\<close>, then the measurement call returns, and
  between its write to control register 0 and its read of the data its trace is exactly the
  polling phase: \<open>K\<close> reads of the status register, the \<open>K\<close>th seen done, a sleep of 5 ms
  between consecutive reads (\<open>2K - 1\<close> events, \<open>(K - 1) * 5\<close> ms on the clock), and no
  write. For magnetic the driver is a constructed one.
\<close>

theorem poll_loop_terminates:
  "(first_done_at D 7 K (on_write D [0x1B, 0x02] (dev w)) \<longrightarrow>
      (\<exists>t w' polls raw.
         temperature R D w = Some (t, w') \<and>
         trace w' = trace w @ BusWrite [0x1B, 0x02] # polls @ [BusWriteThenRead [0x09] [raw]] \<and>
         poll_phase 7 K polls \<and> length polls = 2 * K - 1 \<and>
         (\<forall>e \<in> set polls. e = Sleep 0.005 \<or> (\<exists>v. e = BusWriteThenRead [0x18] [v])) \<and>
         clock w' = clock w + of_nat (K - 1) * 0.005)) \<and>
   (first_done_at D 6 K (on_write D [0x1B, 0x21] (dev w)) \<and> constructed w \<longrightarrow>
      (\<exists>r w' polls bs.
         magnetic R D w = Some (Inr r, w') \<and>
         trace w' = trace w @ BusWrite [0x1B, 0x21] # polls @ [BusWriteThenRead [0x00] bs] \<and>
         poll_phase 6 K polls \<and> length polls = 2 * K - 1 \<and>
         (\<forall>e \<in> set polls. e = Sleep 0.005 \<or> (\<exists>v. e = BusWriteThenRead [0x18] [v])) \<and>
         clock w' = clock w + of_nat (K - 1) * 0.005))"
proof (intro conjI impI)
  assume K: "first_done_at D 7 K (on_write D [0x1B, 0x02] (dev w))"
  let ?polls = "poll_events D K (on_write D [0x1B, 0x02] (dev w))"
  note r = temperature_returns [OF K, of R]
  have p: "poll_phase 7 K ?polls" using K by (rule poll_events_phase)
  then have "length ?polls = 2 * K - 1" by (rule poll_phase_length)
  moreover have "\<forall>e \<in> set ?polls. e = Sleep 0.005 \<or> (\<exists>v. e = BusWriteThenRead [0x18] [v])"
    using poll_phase_events [OF p] by (simp add: reg_defs)
  ultimately show "\<exists>t w' polls raw.
         temperature R D w = Some (t, w') \<and>
         trace w' = trace w @ BusWrite [0x1B, 0x02] # polls @ [BusWriteThenRead [0x09] [raw]] \<and>
         poll_phase 7 K polls \<and> length polls = 2 * K - 1 \<and>
         (\<forall>e \<in> set polls. e = Sleep 0.005 \<or> (\<exists>v. e = BusWriteThenRead [0x18] [v])) \<and>
         clock w' = clock w + of_nat (K - 1) * 0.005"
    using r p by (intro exI conjI) (assumption, simp_all)
next
  assume "first_done_at D 6 K (on_write D [0x1B, 0x21] (dev w)) \<and> constructed w"
  then have K: "first_done_at D 6 K (on_write D [0x1B, 0x21] (dev w))" and c: "constructed w"
    by simp_all
  let ?polls = "poll_events D K (on_write D [0x1B, 0x21] (dev w))"
  note r = magnetic_returns [OF c K, of R]
  have p: "poll_phase 6 K ?polls" using K by (rule poll_events_phase)
  then have "length ?polls = 2 * K - 1" by (rule poll_phase_length)
  moreover have "\<forall>e \<in> set ?polls. e = Sleep 0.005 \<or> (\<exists>v. e = BusWriteThenRead [0x18] [v])"
    using poll_phase_events [OF p] by (simp add: reg_defs)
  ultimately show "\<exists>r w' polls bs.
         magnetic R D w = Some (Inr r, w') \<and>
         trace w' = trace w @ BusWrite [0x1B, 0x21] # polls @ [BusWriteThenRead [0x00] bs] \<and>
         poll_phase 6 K polls \<and> length polls = 2 * K - 1 \<and>
         (\<forall>e \<in> set polls. e = Sleep 0.005 \<or> (\<exists>v. e = BusWriteThenRead [0x18] [v])) \<and>
         clock w' = clock w + of_nat (K - 1) * 0.005"
    using r p by (intro exI conjI) (assumption, simp_all)
qed

subsection \<open>The simulated chips\<close>

text \<open>
  On the simulated chip every call returns, after \<open>pending + 1\<close> polls, with the reading
  of the output registers, whatever they hold. The stuck chip never shows a done bit.
\<close>

lemma sim_first_done_at:
  assumes "b = 6 \<or> b = 7"
  shows "first_done_at SIM b (Suc (pending s)) s"
proof (induction "pending s" arbitrary: s)
  case 0
  then show ?case using assms by (auto simp: sim_defs reg_defs)
next
  case (Suc k)
  let ?s' = "on_sleep SIM 0.005 (snd (on_read SIM [MMC5603_STATUS_REG] 1 s))"
  from Suc(2) have "k = pending ?s'" by (simp add: sim_defs reg_defs)
  from Suc(1) [OF this] have "first_done_at SIM b (Suc k) ?s'"
    using \<open>k = pending ?s'\<close> by simp
  moreover have "fst (on_read SIM [MMC5603_STATUS_REG] 1 s) 0 AND push_bit (b mod 8) 1 = 0"
    using Suc(2) by (simp add: sim_defs reg_defs)
  ultimately show ?case using Suc(2) [symmetric] by simp
qed

lemma SIM_simps:
  "on_read SIM = sim_read" "on_write SIM = sim_write" "on_sleep SIM = (\<lambda>t s. s)"
  by (simp_all add: SIM_def)

lemma sim_status_read: "out_block (snd (sim_read [MMC5603_STATUS_REG] n s)) = out_block s"
  by (simp add: sim_read_def)

lemma sim_settled: "out_block (settled SIM K d) = out_block d"
proof (induction K arbitrary: d rule: nat_less_induct)
  case (1 K)
  show ?case
  proof (cases K)
    case 0
    then show ?thesis by simp
  next
    case (Suc k)
    show ?thesis
    proof (cases k)
      case 0
      with Suc show ?thesis by (simp add: SIM_simps sim_status_read)
    next
      case (Suc j)
      with \<open>K = Suc k\<close> 1 show ?thesis by (simp add: SIM_simps sim_status_read)
    qed
  qed
qed

lemma sim_readback:
  assumes "9 \<le> length (out_block d)"
  shows "readback SIM d = take 9 (out_block d)"
  using assms by (simp add: readback_def SIM_simps sim_read_def reg_defs list_eq_iff_nth_eq)

lemma sim_raw_temp:
  assumes "10 \<le> length (out_block d)"
  shows "raw_temp SIM d = out_block d ! 9"
  using assms by (simp add: raw_temp_def SIM_simps sim_read_def reg_defs)

lemma sim_magnetic:
  assumes "constructed w" and "9 \<le> length (out_block (dev w))"
  shows "\<exists>w'. magnetic R SIM w =
             Some (Inr (axis R (take 9 (out_block (dev w))) 0,
                        axis R (take 9 (out_block (dev w))) 1,
                        axis R (take 9 (out_block (dev w))) 2), w')"
proof -
  let ?d0 = "on_write SIM [0x1B, 0x21] (dev w)"
  let ?K = "Suc (pending ?d0)"
  have K: "first_done_at SIM 6 ?K ?d0" by (rule sim_first_done_at) simp
  have "out_block (settled SIM ?K ?d0) = out_block (dev w)"
    by (simp add: sim_settled) (simp add: SIM_simps sim_write_def reg_defs)
  with assms(2) have "readback SIM (settled SIM ?K ?d0) = take 9 (out_block (dev w))"
    by (simp add: sim_readback)
  with magnetic_returns [OF assms(1) K, of R] show ?thesis by simp
qed

lemma sim_temperature:
  assumes "10 \<le> length (out_block (dev w))"
  shows "\<exists>w'. temperature R SIM w = Some (celsius R (out_block (dev w) ! 9), w')"
proof -
  let ?d0 = "on_write SIM [0x1B, 0x02] (dev w)"
  let ?K = "Suc (pending ?d0)"
  have K: "first_done_at SIM 7 ?K ?d0" by (rule sim_first_done_at) simp
  have "out_block (settled SIM ?K ?d0) = out_block (dev w)"
    by (simp add: sim_settled) (simp add: SIM_simps sim_write_def reg_defs)
  with assms have "raw_temp SIM (settled SIM ?K ?d0) = out_block (dev w) ! 9"
    by (simp add: sim_raw_temp)
  with temperature_returns [OF K, of R] show ?thesis by simp
qed

lemma stuck_never_done: "\<not> first_done_at STUCK b J d"
  by (induction STUCK b J d rule: first_done_at.induct) (simp_all add: STUCK_def)

lemma sim_driver_constructed: "constructed (sim_driver regs k)"
  by (simp add: sim_driver_def constructed_def init_def i2c_device_init_def reset_def prim_defs
      reg_defs sim_defs MMC5603_I2CADDR_DEFAULT_def Let_def)

lemma sample_driver_constructed: "constructed sample_driver"
  by (simp add: sample_driver_def sim_driver_constructed)

lemma other_driver_constructed: "constructed other_driver"
  by (simp add: other_driver_def sim_driver_constructed)

lemma stuck_driver_constructed: "constructed stuck_driver"
  by (simp add: stuck_driver_def constructed_def)

lemma sample_first_done_at:
  "first_done_at SIM 7 3 (on_write SIM [0x1B, 0x02] (dev sample_driver))"
  "first_done_at SIM 6 3 (on_write SIM [0x1B, 0x21] (dev sample_driver))"
  by code_simp+

lemma sample_answers:
  "readback SIM (settled SIM 3 (on_write SIM [0x1B, 0x21] (dev sample_driver))) =
     [0x80, 0x0A, 0x80, 0x00, 0x80, 0x00, 0x00, 0x00, 0x00]"
  "raw_temp SIM (settled SIM 3 (on_write SIM [0x1B, 0x02] (dev sample_driver))) = 255"
  by code_simp+

lemma sample_poll_events:
  "poll_events SIM 3 (on_write SIM [0x1B, 0x02] (dev sample_driver)) =
     [BusWriteThenRead [0x18] [0x00], Sleep 0.005, BusWriteThenRead [0x18] [0x00], Sleep 0.005,
      BusWriteThenRead [0x18] [0xC0]]"
  "poll_events SIM 3 (on_write SIM [0x1B, 0x21] (dev sample_driver)) =
     [BusWriteThenRead [0x18] [0x00], Sleep 0.005, BusWriteThenRead [0x18] [0x00], Sleep 0.005,
      BusWriteThenRead [0x18] [0xC0]]"
  by code_simp+

lemma sample_axes:
  "axis binary64 [0x80, 0x0A, 0x80, 0x00, 0x80, 0x00, 0x00, 0x00, 0x00] 0 = 1"
  "axis binary64 [0x80, 0x0A, 0x80, 0x00, 0x80, 0x00, 0x00, 0x00, 0x00] 1 = 0"
  "axis binary64 [0x80, 0x0A, 0x80, 0x00, 0x80, 0x00, 0x00, 0x00, 0x00] 2 = 0"
  "axis exact [0x80, 0x0A, 0x80, 0x00, 0x80, 0x00, 0x00, 0x00, 0x00] 0 = 1"
  "axis exact [0x80, 0x0A, 0x80, 0x00, 0x80, 0x00, 0x00, 0x00, 0x00] 1 = 0"
  "axis exact [0x80, 0x0A, 0x80, 0x00, 0x80, 0x00, 0x00, 0x00, 0x00] 2 = 0"
  by code_simp+

lemma sample_magnetic:
  "magnetic R SIM sample_driver =
     Some (Inr (axis R [0x80, 0x0A, 0x80, 0x00, 0x80, 0x00, 0x00, 0x00, 0x00] 0,
                axis R [0x80, 0x0A, 0x80, 0x00, 0x80, 0x00, 0x00, 0x00, 0x00] 1,
                axis R [0x80, 0x0A, 0x80, 0x00, 0x80, 0x00, 0x00, 0x00, 0x00] 2),
       sample_driver
         \<lparr>dev := snd (on_read SIM [0x00] 9
                   (settled SIM 3 (on_write SIM [0x1B, 0x21] (dev sample_driver)))),
          clock := clock sample_driver + of_nat (3 - 1) * 0.005,
          trace := trace sample_driver @ BusWrite [0x1B, 0x21] #
                     poll_events SIM 3 (on_write SIM [0x1B, 0x21] (dev sample_driver)) @
                     [BusWriteThenRead [0x00]
                        [0x80, 0x0A, 0x80, 0x00, 0x80, 0x00, 0x00, 0x00, 0x00]],
          buffer := Some [0x80, 0x0A, 0x80, 0x00, 0x80, 0x00, 0x00, 0x00, 0x00]\<rparr>)"
  using magnetic_returns [OF sample_driver_constructed sample_first_done_at(2), of R]
  by (simp only: sample_answers)

lemma sample_magnetic_value:
  "magnetic binary64 SIM sample_driver =
     Some (Inr (1, 0, 0), snd (the (magnetic binary64 SIM sample_driver)))"
  "magnetic exact SIM sample_driver =
     Some (Inr (1, 0, 0), snd (the (magnetic exact SIM sample_driver)))"
  by (simp_all only: sample_magnetic sample_axes option.sel snd_conv)

lemma sample_magnetic_again:
  "magnetic binary64 SIM (snd (the (magnetic binary64 SIM sample_driver))) =
     Some (Inr (1, 0, 0),
       snd (the (magnetic binary64 SIM (snd (the (magnetic binary64 SIM sample_driver))))))"
proof -
  have "magnetic binary64 SIM (snd (the (magnetic binary64 SIM sample_driver))) \<noteq> None \<and>
        fst (the (magnetic binary64 SIM (snd (the (magnetic binary64 SIM sample_driver))))) =
          Inr (1, 0, 0)"
    by code_simp
  then show ?thesis
    by (cases "magnetic binary64 SIM (snd (the (magnetic binary64 SIM sample_driver)))") auto
qed

lemma sample_magnetic_traces:
  "trace (snd (the (magnetic binary64 SIM sample_driver))) =
     butlast (trace (snd (the (magnetic binary64 SIM sample_driver)))) @
       [BusWriteThenRead [0x00] [0x80, 0x0A, 0x80, 0x00, 0x80, 0x00, 0x00, 0x00, 0x00]]"
  "trace (snd (the (magnetic binary64 SIM
       (snd (the (magnetic binary64 SIM sample_driver)))))) =
     butlast (trace (snd (the (magnetic binary64 SIM
       (snd (the (magnetic binary64 SIM sample_driver))))))) @
       [BusWriteThenRead [0x00] [0x80, 0x0A, 0x80, 0x00, 0x80, 0x00, 0x00, 0x00, 0x00]]"
  by code_simp+

lemma sample_temperature:
  "temperature binary64 SIM sample_driver =
     Some (129,
       sample_driver
         \<lparr>dev := snd (on_read SIM [0x09] 1
                   (settled SIM 3 (on_write SIM [0x1B, 0x02] (dev sample_driver)))),
          clock := clock sample_driver + of_nat (3 - 1) * 0.005,
          trace := trace sample_driver @ BusWrite [0x1B, 0x02] #
                     poll_events SIM 3 (on_write SIM [0x1B, 0x02] (dev sample_driver)) @
                     [BusWriteThenRead [0x09] [255]]\<rparr>)"
  using temperature_returns [OF sample_first_done_at(1), of binary64]
  by (simp only: sample_answers celsius_instances)

subsection \<open>The properties at the sample chips\<close>

theorem magnetic_decode_witness:
  "\<exists>w'. magnetic binary64 SIM sample_driver = Some (Inr (1, 0, 0), w') \<and>
     buffer w' = Some [0x80, 0x0A, 0x80, 0x00, 0x80, 0x00, 0x00, 0x00, 0x00]"
  using magnetic_decode [OF sample_driver_constructed sample_first_done_at(2), THEN conjunct1]
  by (simp only: sample_answers sample_axes)

theorem temperature_conversion_witness:
  "\<exists>w'. temperature binary64 SIM sample_driver = Some (129, w') \<and>
     trace w' = trace sample_driver @
       [BusWrite [0x1B, 0x02],
        BusWriteThenRead [0x18] [0x00], Sleep 0.005, BusWriteThenRead [0x18] [0x00], Sleep 0.005,
        BusWriteThenRead [0x18] [0xC0],
        BusWriteThenRead [0x09] [255]]"
proof -
  note T = temperature_conversion [OF sample_first_done_at(1), THEN conjunct1,
      unfolded sample_answers sample_poll_events celsius_instances]
  show ?thesis by (rule exI, rule conjI, rule T) simp
qed

theorem poll_loop_terminates_witness:
  "(\<exists>t w' polls raw.
      temperature binary64 SIM sample_driver = Some (t, w') \<and>
      trace w' = trace sample_driver @
        BusWrite [0x1B, 0x02] # polls @ [BusWriteThenRead [0x09] [raw]] \<and>
      poll_phase 7 3 polls \<and> length polls = 5 \<and>
      clock w' = clock sample_driver + 2 * 0.005) \<and>
   (\<exists>r w' polls bs.
      magnetic binary64 SIM sample_driver = Some (Inr r, w') \<and>
      trace w' = trace sample_driver @
        BusWrite [0x1B, 0x21] # polls @ [BusWriteThenRead [0x00] bs] \<and>
      poll_phase 6 3 polls \<and> length polls = 5 \<and>
      clock w' = clock sample_driver + 2 * 0.005)"
proof -
  note T = poll_loop_terminates [where D = SIM and K = 3 and w = sample_driver
      and R = binary64, THEN conjunct1, rule_format, OF sample_first_done_at(1)]
  note M = poll_loop_terminates [where D = SIM and K = 3 and w = sample_driver
      and R = binary64, THEN conjunct2, rule_format,
      OF conjI [OF sample_first_done_at(2) sample_driver_constructed]]
  from T obtain t w' polls raw where
    "temperature binary64 SIM sample_driver = Some (t, w')"
    "trace w' = trace sample_driver @
        BusWrite [0x1B, 0x02] # polls @ [BusWriteThenRead [0x09] [raw]]"
    "poll_phase 7 3 polls" "length polls = 2 * 3 - 1"
    "clock w' = clock sample_driver + of_nat (3 - 1) * 0.005"
    by blast
  then have A: "\<exists>t w' polls raw.
      temperature binary64 SIM sample_driver = Some (t, w') \<and>
      trace w' = trace sample_driver @
        BusWrite [0x1B, 0x02] # polls @ [BusWriteThenRead [0x09] [raw]] \<and>
      poll_phase 7 3 polls \<and> length polls = 5 \<and>
      clock w' = clock sample_driver + 2 * 0.005"
    by (intro exI [of _ t] exI [of _ w'] exI [of _ polls] exI [of _ raw]) simp
  from M obtain r w' polls bs where
    "magnetic binary64 SIM sample_driver = Some (Inr r, w')"
    "trace w' = trace sample_driver @
        BusWrite [0x1B, 0x21] # polls @ [BusWriteThenRead [0x00] bs]"
    "poll_phase 6 3 polls" "length polls = 2 * 3 - 1"
    "clock w' = clock sample_driver + of_nat (3 - 1) * 0.005"
    by blast
  then have B: "\<exists>r w' polls bs.
      magnetic binary64 SIM sample_driver = Some (Inr r, w') \<and>
      trace w' = trace sample_driver @
        BusWrite [0x1B, 0x21] # polls @ [BusWriteThenRead [0x00] bs] \<and>
      poll_phase 6 3 polls \<and> length polls = 5 \<and>
      clock w' = clock sample_driver + 2 * 0.005"
    by (intro exI [of _ r] exI [of _ w'] exI [of _ polls] exI [of _ bs]) simp
  from A B show ?thesis by (rule conjI)
qed

theorem magnetic_protocol_witness:
  "(\<exists>xyz w'. magnetic binary64 SIM sample_driver = Some (Inr xyz, w') \<and>
      trace w' = trace sample_driver @
        [BusWrite [0x1B, 0x21],
         BusWriteThenRead [0x18] [0x00], Sleep 0.005, BusWriteThenRead [0x18] [0x00],
         Sleep 0.005, BusWriteThenRead [0x18] [0xC0],
         BusWriteThenRead [0x00] [0x80, 0x0A, 0x80, 0x00, 0x80, 0x00, 0x00, 0x00, 0x00]] \<and>
      buffer w' = Some [0x80, 0x0A, 0x80, 0x00, 0x80, 0x00, 0x00, 0x00, 0x00]) \<and>
   magnetic binary64 STUCK stuck_driver = None \<and>
   (\<exists>es. trace (state_reached (magnetic_within 3 binary64 STUCK stuck_driver)) =
      trace stuck_driver @ BusWrite [0x1B, 0x21] # es)"
proof -
  note S = magnetic_protocol [where D = SIM and K = 3 and w = sample_driver
      and R = binary64, OF sample_driver_constructed]
  note N = magnetic_protocol [where D = STUCK and K = 1 and w = stuck_driver
      and R = binary64, OF stuck_driver_constructed]
  from S [THEN conjunct1, rule_format, OF sample_first_done_at(2), THEN conjunct1]
  obtain xyz where
    "magnetic binary64 SIM sample_driver =
       Some (Inr xyz,
         sample_driver
           \<lparr>dev := snd (on_read SIM [0x00] 9
                     (settled SIM 3 (on_write SIM [0x1B, 0x21] (dev sample_driver)))),
            clock := clock sample_driver + of_nat (3 - 1) * 0.005,
            trace := trace sample_driver @ BusWrite [0x1B, 0x21] #
                       poll_events SIM 3 (on_write SIM [0x1B, 0x21] (dev sample_driver)) @
                       [BusWriteThenRead [0x00]
                          [0x80, 0x0A, 0x80, 0x00, 0x80, 0x00, 0x00, 0x00, 0x00]],
            buffer := Some [0x80, 0x0A, 0x80, 0x00, 0x80, 0x00, 0x00, 0x00, 0x00]\<rparr>)"
    unfolding sample_answers by blast
  then have A: "\<exists>xyz w'. magnetic binary64 SIM sample_driver = Some (Inr xyz, w') \<and>
      trace w' = trace sample_driver @
        [BusWrite [0x1B, 0x21],
         BusWriteThenRead [0x18] [0x00], Sleep 0.005, BusWriteThenRead [0x18] [0x00],
         Sleep 0.005, BusWriteThenRead [0x18] [0xC0],
         BusWriteThenRead [0x00] [0x80, 0x0A, 0x80, 0x00, 0x80, 0x00, 0x00, 0x00, 0x00]] \<and>
      buffer w' = Some [0x80, 0x0A, 0x80, 0x00, 0x80, 0x00, 0x00, 0x00, 0x00]"
    by (intro exI conjI, assumption) (simp_all add: sample_poll_events)
  from N [THEN conjunct2, THEN conjunct1] have B: "magnetic binary64 STUCK stuck_driver = None"
    by (simp add: stuck_never_done)
  from N [THEN conjunct2, THEN conjunct2, THEN conjunct1] have
    C: "\<exists>es. trace (state_reached (magnetic_within 3 binary64 STUCK stuck_driver)) =
      trace stuck_driver @ BusWrite [0x1B, 0x21] # es"
    by (rule spec)
  from A B C show ?thesis by (intro conjI)
qed

theorem magnetic_repeatable_witness:
  "\<exists>r1 w1 r2 w2.
     magnetic binary64 SIM sample_driver = Some (Inr r1, w1) \<and>
     magnetic binary64 SIM w1 = Some (Inr r2, w2) \<and> r2 = r1 \<and>
     magnetic binary64 SIM (sample_driver\<lparr>buffer := Some (replicate 9 0xFF)\<rparr>) =
       magnetic binary64 SIM sample_driver"
proof -
  note R = magnetic_repeatable [OF sample_magnetic_value(1) sample_magnetic_again
      sample_magnetic_traces]
  have "buffer sample_driver = Some (replicate 9 0) \<and>
        length (replicate 9 (0xFF :: u8)) = length (replicate 9 (0 :: u8))"
    by (simp add: sample_driver_def sim_driver_def init_def i2c_device_init_def reset_def
        prim_defs reg_defs sim_defs Let_def)
  with R have "magnetic binary64 SIM (sample_driver\<lparr>buffer := Some (replicate 9 0xFF)\<rparr>) =
       magnetic binary64 SIM sample_driver"
    by blast
  with sample_magnetic_value(1) sample_magnetic_again show ?thesis by blast
qed

theorem temperature_frame_witness:
  "\<exists>t w'. temperature binary64 SIM sample_driver = Some (t, w') \<and>
     buffer w' = buffer sample_driver \<and>
     (\<exists>K polls raw.
        trace w' = trace sample_driver @
          BusWrite [0x1B, 0x02] # polls @ [BusWriteThenRead [0x09] [raw]] \<and>
        poll_phase 7 K polls) \<and>
     temperature binary64 SIM (sample_driver\<lparr>buffer := None\<rparr>) =
       map_option (\<lambda>(t, w'). (t, w'\<lparr>buffer := None\<rparr>))
         (temperature binary64 SIM sample_driver)"
  using temperature_frame [where R = binary64 and D = SIM and w = sample_driver and x = None,
      THEN conjunct1, rule_format, OF sample_temperature]
    temperature_frame [where R = binary64 and D = SIM and w = sample_driver and x = None
      and t = 129 and w' = sample_driver, THEN conjunct2]
    sample_temperature
  by blast

theorem magnetic_range_witness:
  "\<exists>x y z w'. magnetic exact SIM sample_driver = Some (Inr (x, y, z), w') \<and>
     - 3276.8 \<le> x \<and> x \<le> 3276.79375 \<and>
     - 3276.8 \<le> y \<and> y \<le> 3276.79375 \<and>
     - 3276.8 \<le> z \<and> z \<le> 3276.79375"
  using magnetic_range [OF sample_magnetic_value(2)] sample_magnetic_value(2) by blast

theorem init_checks_product_id_witness:
  "init SIM 0x30 (sim_start [] 0x11 0) =
     (Inl (RuntimeError ''Failed to find MMC5603 - check your wiring!''),
      (sim_start [] 0x11 0)
        \<lparr>trace := [BusWrite [], BusWriteThenRead [0x39] [0x11]], address := 0x30\<rparr>) \<and>
   construct_then SIM 0x30 (sim_start [] 0x11 0) (temperature binary64 SIM) =
     Inl (RuntimeError ''Failed to find MMC5603 - check your wiring!'',
      (sim_start [] 0x11 0)
        \<lparr>trace := [BusWrite [], BusWriteThenRead [0x39] [0x11]], address := 0x30\<rparr>) \<and>
   fst (init SIM 0x30 (sim_start [] 0x10 0)) = Inr () \<and>
   buffer (snd (init SIM 0x30 (sim_start [] 0x10 0))) = Some (replicate 9 0)"
proof -
  have a: "fst (on_read SIM [0x39] 1 (on_write SIM [] (dev (sim_start [] 0x11 0)))) 0 \<noteq> 0x10"
    by (simp add: sim_defs reg_defs)
  have b: "fst (on_read SIM [0x39] 1 (on_write SIM [] (dev (sim_start [] 0x10 0)))) 0 = 0x10"
    by (simp add: sim_defs reg_defs)
  note A = init_checks_product_id [of SIM "sim_start [] 0x11 0" "0x30", THEN conjunct1,
      rule_format, OF a]
  note B = init_checks_product_id [of SIM "sim_start [] 0x10 0" "0x30", THEN conjunct2,
      rule_format, OF b]
  have "init SIM 0x30 (sim_start [] 0x11 0) =
     (Inl (RuntimeError ''Failed to find MMC5603 - check your wiring!''),
      (sim_start [] 0x11 0)
        \<lparr>trace := [BusWrite [], BusWriteThenRead [0x39] [0x11]], address := 0x30\<rparr>)"
    using A [THEN conjunct1] by (simp add: sim_defs reg_defs)
  moreover have "construct_then SIM 0x30 (sim_start [] 0x11 0) (temperature binary64 SIM) =
     Inl (RuntimeError ''Failed to find MMC5603 - check your wiring!'',
      (sim_start [] 0x11 0)
        \<lparr>trace := [BusWrite [], BusWriteThenRead [0x39] [0x11]], address := 0x30\<rparr>)"
    using A [THEN conjunct2, rule_format, of "temperature binary64 SIM"]
    by (simp add: sim_defs reg_defs)
  moreover have "fst (init SIM 0x30 (sim_start [] 0x10 0)) = Inr ()"
    "buffer (snd (init SIM 0x30 (sim_start [] 0x10 0))) = Some (replicate 9 0)"
    using B [THEN conjunct1] by simp_all
  ultimately show ?thesis by simp
qed

subsection \<open>Where the code departs from the formulas in exact arithmetic\<close>

lemma other_first_done_at:
  "first_done_at SIM 7 1 (on_write SIM [0x1B, 0x02] (dev other_driver))"
  "first_done_at SIM 6 1 (on_write SIM [0x1B, 0x21] (dev other_driver))"
  by code_simp+

lemma other_answers:
  "readback SIM (settled SIM 1 (on_write SIM [0x1B, 0x21] (dev other_driver))) =
     [0x7D, 0x7D, 0x80, 0x00, 0x80, 0x00, 0x70, 0x00, 0x00]"
  "raw_temp SIM (settled SIM 1 (on_write SIM [0x1B, 0x02] (dev other_driver))) = 0x17"
  "poll_events SIM 1 (on_write SIM [0x1B, 0x02] (dev other_driver)) =
     [BusWriteThenRead [0x18] [0xC0]]"
  "poll_events SIM 1 (on_write SIM [0x1B, 0x21] (dev other_driver)) =
     [BusWriteThenRead [0x18] [0xC0]]"
  by code_simp+

lemma other_values:
  "axis binary64 [0x7D, 0x7D, 0x80, 0x00, 0x80, 0x00, 0x70, 0x00, 0x00] 0 =
     - 4521631618066023 / 70368744177664"
  "axis binary64 [0x7D, 0x7D, 0x80, 0x00, 0x80, 0x00, 0x70, 0x00, 0x00] 1 = 0"
  "axis binary64 [0x7D, 0x7D, 0x80, 0x00, 0x80, 0x00, 0x70, 0x00, 0x00] 2 = 0"
  "celsius binary64 0x17 = - 1991435460227891 / 35184372088832"
  by code_simp+

text \<open>
  On the second chip the X axis is packed to 514007. The call returns the double
  \<open>-4521631618066023 / 2^46\<close>, which Python prints as \<^verbatim>\<open>-64.25625000000001\<close>; it is not
  \<open>(514007 - 2^19) * 0.00625 = -64.25625\<close>.
\<close>

theorem magnetic_decode_counterexample:
  "map_option fst (magnetic binary64 SIM other_driver) =
     Some (Inr (- 4521631618066023 / 70368744177664, 0, 0)) \<and>
   map_option (trace \<circ> snd) (magnetic binary64 SIM other_driver) =
     Some (trace other_driver @
       [BusWrite [0x1B, 0x21], BusWriteThenRead [0x18] [0xC0],
        BusWriteThenRead [0x00] [0x7D, 0x7D, 0x80, 0x00, 0x80, 0x00, 0x70, 0x00, 0x00]]) \<and>
   map_option (buffer \<circ> snd) (magnetic binary64 SIM other_driver) =
     Some (Some [0x7D, 0x7D, 0x80, 0x00, 0x80, 0x00, 0x70, 0x00, 0x00]) \<and>
   packed [0x7D, 0x7D, 0x80, 0x00, 0x80, 0x00, 0x70, 0x00, 0x00] 0 = 514007 \<and>
   (- 4521631618066023 / 70368744177664 :: rat) \<noteq> of_int (514007 - 2 ^ 19) * 0.00625"
proof -
  note M = magnetic_returns [OF other_driver_constructed other_first_done_at(2), of binary64,
      unfolded other_answers other_values]
  have "packed [0x7D, 0x7D, 0x80, 0x00, 0x80, 0x00, 0x70, 0x00, 0x00] 0 = 514007"
    by code_simp
  moreover have
    "(- 4521631618066023 / 70368744177664 :: rat) \<noteq> of_int (514007 - 2 ^ 19) * 0.00625"
    by simp
  ultimately show ?thesis by (simp add: M)
qed

text \<open>
  On the second chip the raw temperature is 23. The call returns the double
  \<open>-1991435460227891 / 2^45\<close>, which Python prints as \<^verbatim>\<open>-56.599999999999994\<close>; it is not
  \<open>0.8 * 23 - 75 = -56.6\<close>.
\<close>

theorem temperature_conversion_counterexample:
  "map_option fst (temperature binary64 SIM other_driver) =
     Some (- 1991435460227891 / 35184372088832) \<and>
   map_option (trace \<circ> snd) (temperature binary64 SIM other_driver) =
     Some (trace other_driver @
       [BusWrite [0x1B, 0x02], BusWriteThenRead [0x18] [0xC0],
        BusWriteThenRead [0x09] [0x17]]) \<and>
   (- 1991435460227891 / 35184372088832 :: rat) \<noteq> 0.8 * of_int (uint (0x17 :: u8)) - 75"
proof -
  note T = temperature_returns [OF other_first_done_at(1), of binary64,
      unfolded other_answers other_values]
  have "(- 1991435460227891 / 35184372088832 :: rat) \<noteq> 0.8 * of_int (uint (0x17 :: u8)) - 75"
    by simp
  then show ?thesis by (simp add: T)
qed

text \<open>
  Construction on a chip that answers 0x11 for its product id raises an exception of the
  class \<^verbatim>\<open>RuntimeError\<close>, not of a class \<^verbatim>\<open>DeviceNotFoundError\<close>.
\<close>

theorem init_checks_product_id_counterexample:
  "fst (init SIM 0x30 (sim_start [] 0x11 0)) =
     Inl (RuntimeError ''Failed to find MMC5603 - check your wiring!'') \<and>
   error_class (RuntimeError ''Failed to find MMC5603 - check your wiring!'') \<noteq>
     ''DeviceNotFoundError''"
  by (simp add: init_def i2c_device_init_def prim_defs reg_defs sim_defs Let_def)

end
